theory Spec2Isabelle
  imports Main "HOL-Library.Sublist"
begin

section \<open>Python strings and slices\<close>

text \<open>
  A Python \<open>str\<close> is modelled as a HOL \<open>string\<close>; a \<open>char\<close> stands for a code point
  below 256 (the Latin-1 block). \<open>str.lower\<close>, \<open>str.strip\<close> and \<open>str.rstrip\<close> are written
  out for these code points as CPython computes them.
\<close>

definition lower_char :: "char \<Rightarrow> char" where
  "lower_char c =
     (let n = (of_char c :: nat)
      in if (65 \<le> n \<and> n \<le> 90) \<or> (192 \<le> n \<and> n \<le> 222 \<and> n \<noteq> 215)
         then char_of (n + 32) else c)"

definition lower :: "string \<Rightarrow> string" where
  "lower s = map lower_char s"

text \<open>\<open>str.isspace\<close> on one code point below 256.\<close>

definition is_space :: "char \<Rightarrow> bool" where
  "is_space c =
     (let n = (of_char c :: nat)
      in (9 \<le> n \<and> n \<le> 13) \<or> (28 \<le> n \<and> n \<le> 32) \<or> n = 133 \<or> n = 160)"

text \<open>\<open>s.strip()\<close>: white space removed at both ends.\<close>

definition strip :: "string \<Rightarrow> string" where
  "strip s = dropWhile is_space (rev (dropWhile is_space (rev s)))"

text \<open>\<open>s.rstrip(chars)\<close>: every trailing character that occurs in \<open>chars\<close> is removed.\<close>

definition rstrip :: "string \<Rightarrow> string \<Rightarrow> string" where
  "rstrip chars s = rev (dropWhile (\<lambda>c. c \<in> set chars) (rev s))"

text \<open>
  \<open>xs[:n]\<close> for a Python int \<open>n\<close>: a negative bound counts from the end of the list.
\<close>

definition py_take :: "int \<Rightarrow> 'a list \<Rightarrow> 'a list" where
  "py_take n xs =
     (if 0 \<le> n then take (nat n) xs else take (length xs - nat (- n)) xs)"

text \<open>\<open>x or d\<close> for an optional list argument: \<open>None\<close> and the empty list are both falsy.\<close>

definition or_default :: "'a list option \<Rightarrow> 'a list \<Rightarrow> 'a list" where
  "or_default x d = (case x of None \<Rightarrow> d | Some xs \<Rightarrow> if xs = [] then d else xs)"

section \<open>Data of the external search client\<close>

text \<open>
  The package \<open>pyserxng\<close> is not part of the repository. Its client is a parameter of the
  model: a call of \<open>client.search\<close> takes the query, the per-call configuration and the
  instance, reads and changes a world state \<open>'s\<close>, and either raises or returns a response.
\<close>

text \<open>
  The exceptions are those of class \<open>Exception\<close>, the ones a clause
  \<open>except Exception\<close> catches: the three kinds declared by \<open>pyserxng.exceptions\<close>, the
  \<open>SearchEngineError\<close> of pyplexity_replacement.py, and any other, each with its text.
\<close>

datatype exn =
    SearchError string
  | NetworkError string
  | RateLimitError string
  | SearchEngineError string
  | OtherException string

text \<open>\<open>str(e)\<close>.\<close>

fun str_exn :: "exn \<Rightarrow> string" where
  "str_exn (SearchError m) = m"
| "str_exn (NetworkError m) = m"
| "str_exn (RateLimitError m) = m"
| "str_exn (SearchEngineError m) = m"
| "str_exn (OtherException m) = m"

datatype SearchCategory = GENERAL | IMAGES | NEWS

datatype SafeSearchLevel = NONE | MODERATE | STRICT

text \<open>
  Modelled from the spec: the enumeration \<open>SafeSearchLevel\<close> of \<open>pyserxng.models\<close> is
  missing; the numeric values 0, 1 and 2 are mapped onto its levels, and the enumeration
  constructor of Python raises \<open>ValueError\<close> on any other value.
\<close>

definition SafeSearchLevel_of_int :: "int \<Rightarrow> exn + SafeSearchLevel" where
  "SafeSearchLevel_of_int n =
     (if n = 0 then Inr NONE
      else if n = 1 then Inr MODERATE
      else if n = 2 then Inr STRICT
      else Inl (OtherException ''ValueError''))"

record InstanceInfo =
  inst_url :: string
  inst_status :: string

record SearchConfig =
  categories :: "SearchCategory list"
  engines :: "string list option"
  language :: string
  page :: int
  safe_search :: SafeSearchLevel
  timeout :: int

text \<open>One result of the external client, and its response.\<close>

record ext_result =
  r_title :: string
  r_url :: string
  r_content :: string
  r_thumbnail :: "string option"
  r_engine :: "string option"

record response =
  results :: "ext_result list"
  instance_url :: string

type_synonym 's backend =
  "string \<Rightarrow> SearchConfig \<Rightarrow> InstanceInfo \<Rightarrow> 's \<Rightarrow> (exn + response) \<times> 's"

section \<open>The result records of the two adapters\<close>

text \<open>
  \<open>pyplexity_adapter.SearchResult\<close> has four fields; \<open>pyplexity_replacement.SearchResult\<close>
  has the same four and three more, so it is the extension of the first record.
\<close>

record SearchResult =
  title :: string
  url :: string
  content :: string
  img_src :: "string option"

record SearchResultX = SearchResult +
  thumbnail_src :: "string option"
  author :: "string option"
  iframe_src :: "string option"

text \<open>\<open>str(result.thumbnail) if result.thumbnail else None\<close>.\<close>

definition thumbnail_str :: "string option \<Rightarrow> string option" where
  "thumbnail_str t = (case t of None \<Rightarrow> None | Some u \<Rightarrow> if u = [] then None else Some u)"

definition convert_result :: "ext_result \<Rightarrow> SearchResult" where
  "convert_result r =
     \<lparr>title = r_title r, url = r_url r, content = r_content r,
      img_src = thumbnail_str (r_thumbnail r)\<rparr>"

definition convert_resultX :: "ext_result \<Rightarrow> SearchResultX" where
  "convert_resultX r =
     \<lparr>title = r_title r, url = r_url r, content = r_content r,
      img_src = thumbnail_str (r_thumbnail r),
      thumbnail_src = thumbnail_str (r_thumbnail r),
      author = None, iframe_src = None\<rparr>"

subsection \<open>De-duplication by url\<close>

text \<open>
  Both adapters carry the same method \<open>_deduplicate_results\<close>: a loop over the results
  with the set \<open>seen_urls\<close> and the list \<open>unique_results\<close>.
\<close>

fun dedup_loop ::
  "('a SearchResult_scheme) list \<Rightarrow> string set \<Rightarrow> ('a SearchResult_scheme) list
     \<Rightarrow> ('a SearchResult_scheme) list" where
  "dedup_loop [] seen_urls unique_results = unique_results"
| "dedup_loop (r # rs) seen_urls unique_results =
     (if url r \<notin> seen_urls
      then dedup_loop rs (insert (url r) seen_urls) (unique_results @ [r])
      else dedup_loop rs seen_urls unique_results)"

definition deduplicate_results ::
  "('a SearchResult_scheme) list \<Rightarrow> ('a SearchResult_scheme) list" where
  "deduplicate_results rs = dedup_loop rs {} []"

section \<open>The compatibility adapter (pyplexity_adapter.py)\<close>

record adapter =
  endpoint :: string
  active_engines :: "string list"
  search_languages :: "string list"
  max_results :: int
  local_instance :: InstanceInfo

text \<open>
  \<open>PyplexitySearchAdapter.__init__\<close>; an argument left out is \<open>None\<close>. The client
  configuration it builds goes to the external client only and is not kept here.
\<close>

definition adapter_init ::
  "string \<Rightarrow> string list option \<Rightarrow> string list option \<Rightarrow> int \<Rightarrow> adapter" where
  "adapter_init ep engs langs m =
     \<lparr>endpoint = ep,
      active_engines = or_default engs [''google'', ''bing'', ''wikipedia''],
      search_languages = or_default langs [''auto'', ''ru'', ''en'', ''de'', ''fr''],
      max_results = m,
      local_instance = \<lparr>inst_url = ep, inst_status = ''online''\<rparr>\<rparr>"

text \<open>The \<open>SearchConfig\<close> built in the body of the language loop.\<close>

definition adapter_config ::
  "string list \<Rightarrow> string \<Rightarrow> int \<Rightarrow> SafeSearchLevel \<Rightarrow> SearchConfig" where
  "adapter_config search_engines lang pg lvl =
     \<lparr>categories = [GENERAL],
      engines = Some search_engines,
      language = (if lang \<noteq> ''auto'' then lang else ''en''),
      page = pg,
      safe_search = lvl,
      timeout = 30\<rparr>"

text \<open>
  The loop \<open>for lang in search_langs\<close>: a failed search is reported and the loop goes
  on; after a search that returned, the loop stops once \<open>max_results\<close> entries are there.
  The diagnostic line printed on failure does not reach the returned value and is left out.
\<close>

fun adapter_loop ::
  "'s backend \<Rightarrow> adapter \<Rightarrow> string \<Rightarrow> string list \<Rightarrow> int \<Rightarrow> SafeSearchLevel
     \<Rightarrow> string list \<Rightarrow> SearchResult list \<Rightarrow> 's \<Rightarrow> SearchResult list \<times> 's" where
  "adapter_loop be a q engs pg lvl [] acc s = (acc, s)"
| "adapter_loop be a q engs pg lvl (lang # langs) acc s =
     (case be q (adapter_config engs lang pg lvl) (local_instance a) s of
        (Inl e, s') \<Rightarrow> adapter_loop be a q engs pg lvl langs acc s'
      | (Inr resp, s') \<Rightarrow>
          (let acc' = acc @ map convert_result (results resp)
           in if max_results a \<le> int (length acc') then (acc', s')
              else adapter_loop be a q engs pg lvl langs acc' s'))"

text \<open>
  \<open>PyplexitySearchAdapter.search\<close>. \<open>SafeSearchLevel(safe_search)\<close> stands before the
  loop and outside every \<open>try\<close>, so its \<open>ValueError\<close> leaves the method.
\<close>

definition adapter_search ::
  "'s backend \<Rightarrow> adapter \<Rightarrow> string \<Rightarrow> string list option \<Rightarrow> string list option
     \<Rightarrow> int \<Rightarrow> int \<Rightarrow> 's \<Rightarrow> (exn + SearchResult list) \<times> 's" where
  "adapter_search be a q engs langs pg ss s =
     (let search_engines = or_default engs (active_engines a);
          search_langs = or_default langs (search_languages a)
      in case SafeSearchLevel_of_int ss of
           Inl e \<Rightarrow> (Inl e, s)
         | Inr lvl \<Rightarrow>
             (case adapter_loop be a q search_engines pg lvl search_langs [] s of
                (acc, s') \<Rightarrow> (Inr (deduplicate_results (py_take (max_results a) acc)), s')))"

text \<open>The collection as it stands when the language loop of \<open>search\<close> is left.\<close>

definition adapter_accumulated ::
  "'s backend \<Rightarrow> adapter \<Rightarrow> string \<Rightarrow> string list option \<Rightarrow> string list option
     \<Rightarrow> int \<Rightarrow> SafeSearchLevel \<Rightarrow> 's \<Rightarrow> SearchResult list" where
  "adapter_accumulated be a q engs langs pg lvl s =
     fst (adapter_loop be a q (or_default engs (active_engines a)) pg lvl
            (or_default langs (search_languages a)) [] s)"

section \<open>The exact replacement (pyplexity_replacement.py)\<close>

record client =
  c_endpoint :: string
  c_local_instance :: InstanceInfo

text \<open>The endpoint stored by \<open>SearxngClient.__init__\<close>.\<close>

definition resolve_endpoint :: "string \<Rightarrow> string" where
  "resolve_endpoint ep =
     (if lower ep \<in> set [''public'', ''auto''] then ''http://localhost:4000''
      else rstrip ''/'' ep)"

definition client_init :: "string \<Rightarrow> client" where
  "client_init ep =
     \<lparr>c_endpoint = resolve_endpoint ep,
      c_local_instance = \<lparr>inst_url = resolve_endpoint ep, inst_status = ''online''\<rparr>\<rparr>"

text \<open>
  The engine list prepared in \<open>_search_single_language\<close>; \<open>engines\<close> is \<open>None\<close> when the
  caller supplied none.
\<close>

definition prepare_engines :: "string list option \<Rightarrow> string list option" where
  "prepare_engines engs =
     (case engs of
        None \<Rightarrow> None
      | Some es \<Rightarrow>
          if es \<noteq> [] \<and> 0 < length es
          then (let valid_engines = map strip (filter (\<lambda>e. e \<noteq> [] \<and> strip e \<noteq> []) es)
                in if valid_engines \<noteq> [] then Some valid_engines else None)
          else None)"

definition client_config :: "string list option \<Rightarrow> string \<Rightarrow> int \<Rightarrow> SearchConfig" where
  "client_config engs lang pg =
     \<lparr>categories = [GENERAL],
      engines = prepare_engines engs,
      language = (if lang \<noteq> ''auto'' then lang else ''en''),
      page = pg,
      safe_search = MODERATE,
      timeout = 30\<rparr>"

text \<open>
  \<open>_search_single_language\<close>: both \<open>except\<close> clauses raise the same
  \<open>SearchEngineError\<close>, the second for every other \<open>Exception\<close>.
\<close>

definition is_declared :: "exn \<Rightarrow> bool" where
  "is_declared e =
     (case e of SearchError m \<Rightarrow> True | NetworkError m \<Rightarrow> True | RateLimitError m \<Rightarrow> True
      | _ \<Rightarrow> False)"

definition search_single_language ::
  "'s backend \<Rightarrow> client \<Rightarrow> string \<Rightarrow> string list option \<Rightarrow> string \<Rightarrow> int \<Rightarrow> 's
     \<Rightarrow> (exn + SearchResultX list) \<times> 's" where
  "search_single_language be c q engs lang pg s =
     (case be q (client_config engs lang pg) (c_local_instance c) s of
        (Inr resp, s') \<Rightarrow> (Inr (map convert_resultX (results resp)), s')
      | (Inl e, s') \<Rightarrow>
          (if is_declared e
           then (Inl (SearchEngineError (''SearXNG search failed: '' @ str_exn e)), s')
           else (Inl (SearchEngineError (''SearXNG search failed: '' @ str_exn e)), s')))"

text \<open>
  The loop \<open>for language in languages\<close> of \<open>SearxngClient.search\<close>: results are added
  when the step returned a non-empty list; an exception of the step is logged and the
  loop goes on. The log lines are left out.
\<close>

fun client_loop ::
  "'s backend \<Rightarrow> client \<Rightarrow> string \<Rightarrow> string list option \<Rightarrow> int
     \<Rightarrow> string list \<Rightarrow> SearchResultX list \<Rightarrow> 's \<Rightarrow> SearchResultX list \<times> 's" where
  "client_loop be c q engs pg [] all_results s = (all_results, s)"
| "client_loop be c q engs pg (lang # langs) all_results s =
     (case search_single_language be c q engs lang pg s of
        (Inr lang_results, s') \<Rightarrow>
          (if lang_results \<noteq> []
           then client_loop be c q engs pg langs (all_results @ lang_results) s'
           else client_loop be c q engs pg langs all_results s')
      | (Inl e, s') \<Rightarrow> client_loop be c q engs pg langs all_results s')"

definition client_languages :: "string list option \<Rightarrow> string list" where
  "client_languages langs = or_default langs [''auto'']"

definition client_search ::
  "'s backend \<Rightarrow> client \<Rightarrow> string \<Rightarrow> string list option \<Rightarrow> string list option \<Rightarrow> int
     \<Rightarrow> 's \<Rightarrow> (exn + SearchResultX list) \<times> 's" where
  "client_search be c q engs langs pg s =
     (case client_loop be c q engs pg (client_languages langs) [] s of
        (all_results, s') \<Rightarrow> (Inr (deduplicate_results all_results), s'))"

definition client_accumulated ::
  "'s backend \<Rightarrow> client \<Rightarrow> string \<Rightarrow> string list option \<Rightarrow> string list option \<Rightarrow> int
     \<Rightarrow> 's \<Rightarrow> SearchResultX list" where
  "client_accumulated be c q engs langs pg s =
     fst (client_loop be c q engs pg (client_languages langs) [] s)"

section \<open>The walkthroughs (simple_search.py, basic_usage.py)\<close>

text \<open>
  What a walkthrough does is the sequence of its calls of the external client and of the
  lines it prints. Headings, counters and timings are left out of the printed lines; the
  lines that depend on a result or on a failure are kept.
\<close>

datatype call =
    UpdateInstances
  | GetInstances
  | GetBestInstances
  | Search string
  | ImageSearch string
  | NewsSearch string
  | TestInstance string string
  | GetStats
  | ExportResults string string
  | GetSuggestions string
  | Close

datatype line =
    NoInstancesExiting
  | ResultTitle string
  | ResultUrl string
  | ResultSnippet string
  | ResultEngine string
  | ResultThumbnail string
  | SearchFailed string
  | ImageSearchFailed string
  | NewsSearchFailed string
  | InstanceWorking string bool
  | TotalInstances int
  | WorkingInstances int
  | CurrentInstance string
  | ResultsExported
  | ExportFailed string
  | Suggestions "string list"
  | NoSuggestions
  | SuggestionsFailed string
  | Done

datatype event = Called call | Printed line

text \<open>
  \<open>content[:n] + "..." if len(content) > n else content\<close>, and the two statements
  around it: the snippet line is printed under \<open>if result.content:\<close>.
\<close>

definition snippet :: "nat \<Rightarrow> string \<Rightarrow> string" where
  "snippet n c = (if n < length c then take n c @ ''...'' else c)"

definition print_snippet :: "nat \<Rightarrow> string \<Rightarrow> event list" where
  "print_snippet n c = (if c \<noteq> [] then [Printed (ResultSnippet (snippet n c))] else [])"

text \<open>The body of the result loop of simple_search.py.\<close>

definition show_simple :: "ext_result \<Rightarrow> event list" where
  "show_simple r =
     [Printed (ResultTitle (r_title r)), Printed (ResultUrl (r_url r))]
     @ print_snippet 80 (r_content r)"

text \<open>The body of the result loop of step 5 of basic_usage.py.\<close>

definition show_basic :: "ext_result \<Rightarrow> event list" where
  "show_basic r =
     [Printed (ResultTitle (r_title r)), Printed (ResultUrl (r_url r))]
     @ print_snippet 100 (r_content r)
     @ (case r_engine r of None \<Rightarrow> []
        | Some e \<Rightarrow> if e \<noteq> [] then [Printed (ResultEngine e)] else [])"

definition show_image :: "ext_result \<Rightarrow> event list" where
  "show_image r =
     [Printed (ResultTitle (r_title r)), Printed (ResultUrl (r_url r))]
     @ (case r_thumbnail r of None \<Rightarrow> []
        | Some t \<Rightarrow> if t \<noteq> [] then [Printed (ResultThumbnail t)] else [])"

definition show_news :: "ext_result \<Rightarrow> event list" where
  "show_news r = [Printed (ResultTitle (r_title r)), Printed (ResultUrl (r_url r))]"

text \<open>How a run of \<open>main\<close> stands: still running, returned, or left by an exception.\<close>

datatype status = Running | Returned | Raised exn

subsection \<open>simple_search.py\<close>

record simple_env =
  s_search_out :: "exn + response"
  s_close_out :: "exn option"

definition simple_main :: "simple_env \<Rightarrow> event list \<times> status" where
  "simple_main env =
     (case s_search_out env of
        Inl e \<Rightarrow> ([Called (Search ''artificial intelligence'')], Raised e)
      | Inr resp \<Rightarrow>
          (let t = [Called (Search ''artificial intelligence'')]
                   @ concat (map show_simple (take 3 (results resp)))
                   @ [Called Close]
           in case s_close_out env of
                Some e \<Rightarrow> (t, Raised e)
              | None \<Rightarrow> (t, Returned)))"

subsection \<open>basic_usage.py\<close>

text \<open>
  Every call of the client in \<open>main\<close> stands at one place and is reached at most once,
  so the outcomes of the calls are given per place.
\<close>

record stats =
  total_instances :: int
  working_instances :: int
  current_instance :: "string option"

record basic_env =
  update_instances_out :: "exn option"
  get_instances_out :: "exn + InstanceInfo list"
  get_best_instances_out :: "exn + InstanceInfo list"
  search_out :: "exn + response"
  image_search_out :: "exn + response"
  news_search_out :: "exn + response"
  test_instance_out :: "exn + bool"
  get_stats_out :: "exn + stats"
  export_json_out :: "exn option"
  export_txt_out :: "exn option"
  suggestions_out :: "exn + string list"
  close_out :: "exn option"

text \<open>
  The local variables of \<open>main\<close> that later steps read, and the events so far.
  \<open>results_var\<close> is \<open>None\<close> as long as \<open>results\<close> is not in \<open>locals()\<close>.
\<close>

record run =
  trace :: "event list"
  instances :: "InstanceInfo list"
  results_var :: "response option"

type_synonym prog = "run \<Rightarrow> run \<times> status"

definition emit :: "event list \<Rightarrow> run \<Rightarrow> run" where
  "emit es r = r\<lparr>trace := trace r @ es\<rparr>"

text \<open>One statement after the other: the second runs only when the first went through.\<close>

definition seq :: "prog \<Rightarrow> prog \<Rightarrow> prog" where
  "seq p q r = (case p r of (r', Running) \<Rightarrow> q r' | (r', st) \<Rightarrow> (r', st))"

text \<open>Steps 1 to 4: lines 22 to 57.\<close>

definition step_instances :: "basic_env \<Rightarrow> prog" where
  "step_instances env r =
     (let r1 = emit [Called UpdateInstances] r
      in case update_instances_out env of
           Some e \<Rightarrow> (r1, Raised e)
         | None \<Rightarrow>
             (let r2 = emit [Called GetInstances] r1
              in case get_instances_out env of
                   Inl e \<Rightarrow> (r2, Raised e)
                 | Inr insts \<Rightarrow>
                     (let working_instances = filter (\<lambda>i. inst_status i = ''online'') insts;
                          r3 = emit [Called GetBestInstances] r2
                      in case get_best_instances_out env of
                           Inl e \<Rightarrow> (r3, Raised e)
                         | Inr best_instances \<Rightarrow>
                             if best_instances \<noteq> []
                             then (r3\<lparr>instances := best_instances\<rparr>, Running)
                             else if working_instances \<noteq> []
                             then (r3\<lparr>instances := take 5 working_instances\<rparr>, Running)
                             else (emit [Printed NoInstancesExiting] r3, Returned))))"

text \<open>Step 5: lines 60 to 79. The handler ends with \<open>return\<close>.\<close>

definition step_search :: "basic_env \<Rightarrow> prog" where
  "step_search env r =
     (let r1 = emit [Called (Search ''Python programming'')] r
      in case search_out env of
           Inr resp \<Rightarrow>
             (emit (concat (map show_basic (take 5 (results resp))))
                (r1\<lparr>results_var := Some resp\<rparr>), Running)
         | Inl e \<Rightarrow> (emit [Printed (SearchFailed (str_exn e))] r1, Returned))"

text \<open>Step 6: lines 82 to 100.\<close>

definition step_images :: "basic_env \<Rightarrow> prog" where
  "step_images env r =
     (let r1 = emit [Called (ImageSearch ''cute cats'')] r
      in case image_search_out env of
           Inr resp \<Rightarrow> (emit (concat (map show_image (take 3 (results resp)))) r1, Running)
         | Inl e \<Rightarrow> (emit [Printed (ImageSearchFailed (str_exn e))] r1, Running))"

text \<open>Step 7: lines 103 to 113.\<close>

definition step_news :: "basic_env \<Rightarrow> prog" where
  "step_news env r =
     (let r1 = emit [Called (NewsSearch ''artificial intelligence'')] r
      in case news_search_out env of
           Inr resp \<Rightarrow> (emit (concat (map show_news (take 3 (results resp)))) r1, Running)
         | Inl e \<Rightarrow> (emit [Printed (NewsSearchFailed (str_exn e))] r1, Running))"

text \<open>Step 8: lines 116 to 120, outside every \<open>try\<close>.\<close>

definition step_test :: "basic_env \<Rightarrow> prog" where
  "step_test env r =
     (case instances r of
        [] \<Rightarrow> (r, Running)
      | test_instance # _ \<Rightarrow>
          (let r1 = emit [Called (TestInstance (inst_url test_instance) ''test query'')] r
           in case test_instance_out env of
                Inl e \<Rightarrow> (r1, Raised e)
              | Inr is_working \<Rightarrow>
                  (emit [Printed (InstanceWorking (inst_url test_instance) is_working)] r1,
                   Running)))"

text \<open>Step 9: lines 123 to 128, outside every \<open>try\<close>.\<close>

definition step_stats :: "basic_env \<Rightarrow> prog" where
  "step_stats env r =
     (let r1 = emit [Called GetStats] r
      in case get_stats_out env of
           Inl e \<Rightarrow> (r1, Raised e)
         | Inr st \<Rightarrow>
             (emit ([Printed (TotalInstances (total_instances st)),
                     Printed (WorkingInstances (working_instances st))]
                    @ (case current_instance st of None \<Rightarrow> []
                       | Some c \<Rightarrow> if c \<noteq> [] then [Printed (CurrentInstance c)] else []))
                r1, Running))"

text \<open>Step 10: lines 131 to 138, under \<open>'results' in locals() and results.results\<close>.\<close>

definition step_export :: "basic_env \<Rightarrow> prog" where
  "step_export env r =
     (case results_var r of
        None \<Rightarrow> (r, Running)
      | Some resp \<Rightarrow>
          if results resp = [] then (r, Running)
          else
            (let r1 = emit [Called (ExportResults ''search_results.json'' ''json'')] r
             in case export_json_out env of
                  Some e \<Rightarrow> (emit [Printed (ExportFailed (str_exn e))] r1, Running)
                | None \<Rightarrow>
                    (let r2 = emit [Called (ExportResults ''search_results.txt'' ''txt'')] r1
                     in case export_txt_out env of
                          Some e \<Rightarrow> (emit [Printed (ExportFailed (str_exn e))] r2, Running)
                        | None \<Rightarrow> (emit [Printed ResultsExported] r2, Running))))"

text \<open>Step 11: lines 141 to 149.\<close>

definition step_suggestions :: "basic_env \<Rightarrow> prog" where
  "step_suggestions env r =
     (let r1 = emit [Called (GetSuggestions ''machine learn'')] r
      in case suggestions_out env of
           Inr suggestions \<Rightarrow>
             (if suggestions \<noteq> []
              then (emit [Printed (Suggestions (take 5 suggestions))] r1, Running)
              else (emit [Printed NoSuggestions] r1, Running))
         | Inl e \<Rightarrow> (emit [Printed (SuggestionsFailed (str_exn e))] r1, Running))"

text \<open>Step 12: lines 152 and 153.\<close>

definition step_close :: "basic_env \<Rightarrow> prog" where
  "step_close env r =
     (let r1 = emit [Called Close] r
      in case close_out env of
           Some e \<Rightarrow> (r1, Raised e)
         | None \<Rightarrow> (emit [Printed Done] r1, Returned))"

definition basic_main :: "basic_env \<Rightarrow> run \<times> status" where
  "basic_main env =
     seq (step_instances env)
      (seq (step_search env)
        (seq (step_images env)
          (seq (step_news env)
            (seq (step_test env)
              (seq (step_stats env)
                (seq (step_export env)
                  (seq (step_suggestions env)
                    (step_close env))))))))
       \<lparr>trace = [], instances = [], results_var = None\<rparr>"

text \<open>The calls of the client that a run attempted.\<close>

definition attempted :: "basic_env \<Rightarrow> call set" where
  "attempted env = {c. Called c \<in> set (trace (fst (basic_main env)))}"

section \<open>Auxiliary definitions\<close>

text \<open>
  The loop of \<open>_deduplicate_results\<close> without its accumulator: the entries whose url is
  not in \<open>seen\<close> and has not occurred before.
\<close>

fun firsts :: "string set \<Rightarrow> ('a SearchResult_scheme) list \<Rightarrow> ('a SearchResult_scheme) list" where
  "firsts seen [] = []"
| "firsts seen (r # rs) =
     (if url r \<in> seen then firsts seen rs else r # firsts (insert (url r) seen) rs)"

text \<open>
  A run of the language loop of \<open>SearxngClient.search\<close> in which the step of every
  language raises, each step starting in the state the one before left.
\<close>

fun every_step_fails ::
  "'s backend \<Rightarrow> client \<Rightarrow> string \<Rightarrow> string list option \<Rightarrow> int \<Rightarrow> string list \<Rightarrow> 's
     \<Rightarrow> bool" where
  "every_step_fails be c q engs pg [] s = True"
| "every_step_fails be c q engs pg (lang # langs) s =
     (case search_single_language be c q engs lang pg s of
        (Inl e, s') \<Rightarrow> every_step_fails be c q engs pg langs s'
      | (Inr rs, s') \<Rightarrow> False)"

subsection \<open>Concrete inputs\<close>

text \<open>
  Two clients to run the adapters on; the world state counts the calls. The first
  fails for Russian and returns three results for every other language, two of them
  the same for all languages; the second is rate-limited on every call.
\<close>

definition sample_result :: "string \<Rightarrow> ext_result" where
  "sample_result u =
     \<lparr>r_title = ''title'', r_url = u, r_content = ''text'', r_thumbnail = None,
      r_engine = None\<rparr>"

definition sample_backend :: "nat backend" where
  "sample_backend q cfg inst n =
     (if language cfg = ''ru'' then (Inl (NetworkError ''timed out''), Suc n)
      else (Inr \<lparr>results = [sample_result (''http://a.example/'' @ language cfg),
                            sample_result ''http://b.example/'',
                            sample_result ''http://c.example/''],
                 instance_url = inst_url inst\<rparr>, Suc n))"

definition failing_backend :: "nat backend" where
  "failing_backend q cfg inst n = (Inl (RateLimitError ''too many requests''), Suc n)"

definition sample_langs :: "string list option" where
  "sample_langs = Some [''en'', ''ru'', ''de'']"

definition sample_adapter :: "int \<Rightarrow> adapter" where
  "sample_adapter m = adapter_init ''http://localhost:4000'' None None m"

definition sample_client :: client where
  "sample_client = client_init ''http://localhost:4000/''"

text \<open>
  A client that also keeps the list of the configurations it was called with, in the
  order of the calls.
\<close>

definition recording :: "'s backend \<Rightarrow> ('s \<times> SearchConfig list) backend" where
  "recording be q cfg inst st =
     (case be q cfg inst (fst st) of (out, s') \<Rightarrow> (out, (s', snd st @ [cfg])))"

definition blank_engines :: "string list option" where
  "blank_engines = Some [''  '', [], [CHR 0x09, CHR 0x20]]"

definition padded_engines :: "string list option" where
  "padded_engines = Some ['' google '', ''  '', ''bing'']"
definition long_result :: ext_result where
  "long_result = (sample_result ''http://a.example/'')\<lparr>r_content := replicate 120 CHR ''x''\<rparr>"

definition empty_result :: ext_result where
  "empty_result = (sample_result ''http://a.example/'')\<lparr>r_content := []\<rparr>"

text \<open>
  Outcomes for basic_usage.py: every call of the client returns; then the same with a
  general search that raises, and with an image search that raises.
\<close>

definition online_instance :: InstanceInfo where
  "online_instance = \<lparr>inst_url = ''https://searx.example.org'', inst_status = ''online''\<rparr>"

definition sample_response :: response where
  "sample_response =
     \<lparr>results = [sample_result ''http://a.example/''],
      instance_url = ''https://searx.example.org''\<rparr>"

definition healthy_env :: basic_env where
  "healthy_env =
     \<lparr>update_instances_out = None,
      get_instances_out = Inr [online_instance],
      get_best_instances_out = Inr [online_instance],
      search_out = Inr sample_response,
      image_search_out = Inr sample_response,
      news_search_out = Inr sample_response,
      test_instance_out = Inr True,
      get_stats_out =
        Inr \<lparr>total_instances = 1, working_instances = 1, current_instance = None\<rparr>,
      export_json_out = None,
      export_txt_out = None,
      suggestions_out = Inr [''machine learning''],
      close_out = None\<rparr>"

definition search_fails_env :: basic_env where
  "search_fails_env = healthy_env\<lparr>search_out := Inl (NetworkError ''connection refused'')\<rparr>"

definition image_fails_env :: basic_env where
  "image_fails_env =
     healthy_env\<lparr>image_search_out := Inl (NetworkError ''connection refused'')\<rparr>"

section \<open>De-duplication\<close>

lemma dedup_loop_firsts: "dedup_loop rs seen acc = acc @ firsts seen rs"
  by (induction rs arbitrary: seen acc) auto

lemma deduplicate_firsts: "deduplicate_results rs = firsts {} rs"
  by (simp add: deduplicate_results_def dedup_loop_firsts)

lemma firsts_urls: "url ` set (firsts seen rs) = url ` set rs - seen"
  by (induction rs arbitrary: seen) auto

lemma firsts_distinct: "distinct (map url (firsts seen rs))"
proof (induction rs arbitrary: seen)
  case Nil
  show ?case by simp
next
  case (Cons r rs)
  have "url r \<notin> url ` set (firsts (insert (url r) seen) rs)"
    by (simp add: firsts_urls)
  with Cons show ?case by simp
qed

lemma firsts_subseq: "subseq (firsts seen rs) rs"
  by (induction rs arbitrary: seen) auto

lemma firsts_length: "length (firsts seen rs) \<le> length rs"
  by (induction rs arbitrary: seen) (auto simp: le_SucI)

text \<open>An entry that is kept is the first entry of the input with its url.\<close>

lemma firsts_find:
  "r \<in> set (firsts seen rs) \<Longrightarrow> find (\<lambda>x. url x = url r) rs = Some r"
proof (induction rs arbitrary: seen)
  case Nil
  then show ?case by simp
next
  case (Cons a rs)
  show ?case
  proof (cases "url a \<in> seen")
    case True
    with Cons.prems have in_rest: "r \<in> set (firsts seen rs)" by simp
    then have "url r \<in> url ` set (firsts seen rs)" by blast
    then have "url r \<notin> seen" by (simp add: firsts_urls)
    with True have "url a \<noteq> url r" by auto
    with Cons.IH [OF in_rest] show ?thesis by simp
  next
    case False
    with Cons.prems have "r = a \<or> r \<in> set (firsts (insert (url a) seen) rs)" by simp
    then show ?thesis
    proof
      assume "r = a"
      then show ?thesis by simp
    next
      assume in_rest: "r \<in> set (firsts (insert (url a) seen) rs)"
      then have "url r \<in> url ` set (firsts (insert (url a) seen) rs)" by blast
      then have "url a \<noteq> url r" by (auto simp: firsts_urls)
      with Cons.IH [OF in_rest] show ?thesis by simp
    qed
  qed
qed

lemma dedup_first_seen:
  "distinct (map url (deduplicate_results xs)) \<and>
   subseq (deduplicate_results xs) xs \<and>
   (\<forall>r \<in> set (deduplicate_results xs). find (\<lambda>x. url x = url r) xs = Some r) \<and>
   url ` set (deduplicate_results xs) = url ` set xs"
  by (simp add: deduplicate_firsts firsts_distinct firsts_subseq firsts_find firsts_urls)

lemma dedup_length: "length (deduplicate_results xs) \<le> length xs"
  by (simp add: deduplicate_firsts firsts_length)

section \<open>Slices\<close>

lemma find_take:
  "find P (take k xs) = Some r \<Longrightarrow> find P xs = Some r"
proof (induction xs arbitrary: k)
  case Nil
  then show ?case by simp
next
  case (Cons x xs)
  then show ?case by (cases k) (auto split: if_splits)
qed

lemma py_take_is_take: "\<exists>k. py_take n xs = take k xs"
  by (auto simp: py_take_def)

lemma subseq_take: "subseq (take k xs) xs"
  by (simp add: prefix_imp_subseq take_is_prefix)

section \<open>What the two search methods return\<close>

lemma adapter_search_Inr:
  assumes "fst (adapter_search be a q engs langs pg ss s) = Inr rs"
    and "SafeSearchLevel_of_int ss = Inr lvl"
  shows "rs = deduplicate_results
                (py_take (max_results a) (adapter_accumulated be a q engs langs pg lvl s))"
  using assms
  by (simp add: adapter_search_def adapter_accumulated_def Let_def split: prod.splits)

lemma adapter_search_level:
  "fst (adapter_search be a q engs langs pg ss s) = Inr rs
     \<Longrightarrow> \<exists>lvl. SafeSearchLevel_of_int ss = Inr lvl"
  by (cases "SafeSearchLevel_of_int ss") (simp_all add: adapter_search_def)

lemma client_search_Inr:
  "fst (client_search be c q engs langs pg s)
     = Inr (deduplicate_results (client_accumulated be c q engs langs pg s))"
  by (simp add: client_search_def client_accumulated_def split: prod.splits)

text \<open>
  C4. A list returned by \<open>search\<close> of the compatibility adapter or of the exact
  replacement has no two entries with the same url; it is a subsequence of the results
  accumulated over the languages, and each of its entries is the first accumulated entry
  with that url.
\<close>

theorem search_results_unique_urls:
  "(fst (adapter_search be a q engs langs pg ss s) = Inr rs \<longrightarrow>
      distinct (map url rs) \<and>
      (\<exists>lvl. SafeSearchLevel_of_int ss = Inr lvl \<and>
         subseq rs (adapter_accumulated be a q engs langs pg lvl s) \<and>
         (\<forall>r \<in> set rs.
            find (\<lambda>x. url x = url r) (adapter_accumulated be a q engs langs pg lvl s)
              = Some r)))
   \<and>
   (fst (client_search be' c q' engs' langs' pg' s') = Inr rs' \<longrightarrow>
      distinct (map url rs') \<and>
      subseq rs' (client_accumulated be' c q' engs' langs' pg' s') \<and>
      (\<forall>r \<in> set rs'.
         find (\<lambda>x. url x = url r) (client_accumulated be' c q' engs' langs' pg' s') = Some r))"
proof (intro conjI impI)
  assume h1: "fst (adapter_search be a q engs langs pg ss s) = Inr rs"
  obtain lvl where h2: "SafeSearchLevel_of_int ss = Inr lvl"
    using adapter_search_level [OF h1] by blast
  let ?acc = "adapter_accumulated be a q engs langs pg lvl s"
  have rs: "rs = deduplicate_results (py_take (max_results a) ?acc)"
    by (rule adapter_search_Inr [OF h1 h2])
  obtain k where k: "py_take (max_results a) ?acc = take k ?acc"
    using py_take_is_take by blast
  show "distinct (map url rs)"
    using rs dedup_first_seen [of "take k ?acc"] k by simp
  have "subseq rs (take k ?acc)"
    using rs k dedup_first_seen [of "take k ?acc"] by simp
  then have sub: "subseq rs ?acc"
    using subseq_take [of k ?acc] by (rule subseq_order.order_trans)
  have fst_seen: "\<forall>r \<in> set rs. find (\<lambda>x. url x = url r) ?acc = Some r"
  proof
    fix r assume "r \<in> set rs"
    then have "find (\<lambda>x. url x = url r) (take k ?acc) = Some r"
      using rs k dedup_first_seen [of "take k ?acc"] by simp
    then show "find (\<lambda>x. url x = url r) ?acc = Some r"
      by (rule find_take)
  qed
  from h2 sub fst_seen
  show "\<exists>lvl. SafeSearchLevel_of_int ss = Inr lvl \<and>
         subseq rs (adapter_accumulated be a q engs langs pg lvl s) \<and>
         (\<forall>r \<in> set rs.
            find (\<lambda>x. url x = url r) (adapter_accumulated be a q engs langs pg lvl s)
              = Some r)"
    by blast
next
  let ?acc = "client_accumulated be' c q' engs' langs' pg' s'"
  assume "fst (client_search be' c q' engs' langs' pg' s') = Inr rs'"
  then have rs: "rs' = deduplicate_results ?acc"
    by (simp add: client_search_Inr)
  show "distinct (map url rs')" using rs dedup_first_seen [of ?acc] by simp
  show "subseq rs' ?acc" using rs dedup_first_seen [of ?acc] by simp
  show "\<forall>r \<in> set rs'. find (\<lambda>x. url x = url r) ?acc = Some r"
    using rs dedup_first_seen [of ?acc] by simp
qed

theorem search_results_unique_urls_witness:
  "fst (adapter_search sample_backend (sample_adapter 5) ''q'' None sample_langs 1 1 0)
     = Inr (map convert_result
         [sample_result ''http://a.example/en'', sample_result ''http://b.example/'',
          sample_result ''http://c.example/'', sample_result ''http://a.example/de''])
   \<and> distinct (map url (map convert_result
         [sample_result ''http://a.example/en'', sample_result ''http://b.example/'',
          sample_result ''http://c.example/'', sample_result ''http://a.example/de'']))
   \<and> fst (client_search sample_backend sample_client ''q'' None sample_langs 1 0)
     = Inr (map convert_resultX
         [sample_result ''http://a.example/en'', sample_result ''http://b.example/'',
          sample_result ''http://c.example/'', sample_result ''http://a.example/de''])
   \<and> distinct (map url (map convert_resultX
         [sample_result ''http://a.example/en'', sample_result ''http://b.example/'',
          sample_result ''http://c.example/'', sample_result ''http://a.example/de'']))"
proof -
  let ?A = "map convert_result
         [sample_result ''http://a.example/en'', sample_result ''http://b.example/'',
          sample_result ''http://c.example/'', sample_result ''http://a.example/de'']"
  let ?C = "map convert_resultX
         [sample_result ''http://a.example/en'', sample_result ''http://b.example/'',
          sample_result ''http://c.example/'', sample_result ''http://a.example/de'']"
  have a: "fst (adapter_search sample_backend (sample_adapter 5) ''q'' None sample_langs 1 1 0)
     = Inr ?A" by code_simp
  have c: "fst (client_search sample_backend sample_client ''q'' None sample_langs 1 0)
     = Inr ?C" by code_simp
  from search_results_unique_urls
    [of sample_backend "sample_adapter 5" "''q''" None sample_langs 1 1 0 ?A
        sample_backend sample_client "''q''" None sample_langs 1 0 ?C] a c
  show ?thesis by blast
qed

section \<open>The endpoint of the exact replacement\<close>

lemma takeWhile_eq_replicate: "takeWhile (\<lambda>x. x = c) xs = replicate (length (takeWhile (\<lambda>x. x = c) xs)) c"
  by (induction xs) auto

lemma rstrip_decomp: "\<exists>n. s = rstrip [c] s @ replicate n c"
proof -
  let ?P = "\<lambda>x. x \<in> set [c]"
  have P: "?P = (\<lambda>x. x = c)" by auto
  have "rev s = takeWhile ?P (rev s) @ dropWhile ?P (rev s)" by simp
  then have "s = rev (dropWhile ?P (rev s)) @ rev (takeWhile ?P (rev s))"
    by (metis rev_append rev_rev_ident)
  moreover have "rev (takeWhile ?P (rev s)) = replicate (length (takeWhile ?P (rev s))) c"
    unfolding P using takeWhile_eq_replicate [of c "rev s"] by (metis rev_replicate)
  ultimately show ?thesis unfolding rstrip_def by metis
qed

lemma rstrip_no_trailing: "rstrip [c] s = [] \<or> last (rstrip [c] s) \<noteq> c"
proof (cases "dropWhile (\<lambda>x. x \<in> set [c]) (rev s) = []")
  case True
  then show ?thesis by (simp add: rstrip_def)
next
  case False
  then have "\<not> (hd (dropWhile (\<lambda>x. x \<in> set [c]) (rev s)) \<in> set [c])"
    by (rule hd_dropWhile)
  with False show ?thesis by (simp add: rstrip_def last_rev)
qed

text \<open>
  C2 (as amended). An endpoint whose lower-case form is \<open>public\<close> or \<open>auto\<close> is
  stored as \<open>http://localhost:4000\<close>. Any other endpoint is stored with all of its
  trailing slashes removed and nothing added: the given text is the stored one followed
  by slashes only, and the stored one does not end in a slash.
\<close>

theorem endpoint_resolution:
  "(lower ep = ''public'' \<or> lower ep = ''auto''
      \<longrightarrow> c_endpoint (client_init ep) = ''http://localhost:4000'')
   \<and> (lower ep \<noteq> ''public'' \<and> lower ep \<noteq> ''auto''
      \<longrightarrow> (\<exists>n. ep = c_endpoint (client_init ep) @ replicate n CHR ''/'')
          \<and> (c_endpoint (client_init ep) = [] \<or> last (c_endpoint (client_init ep)) \<noteq> CHR ''/''))"
proof (intro conjI impI)
  assume "lower ep = ''public'' \<or> lower ep = ''auto''"
  then show "c_endpoint (client_init ep) = ''http://localhost:4000''"
    by (auto simp: client_init_def resolve_endpoint_def)
next
  assume "lower ep \<noteq> ''public'' \<and> lower ep \<noteq> ''auto''"
  then have e: "c_endpoint (client_init ep) = rstrip ''/'' ep"
    by (simp add: client_init_def resolve_endpoint_def)
  show "\<exists>n. ep = c_endpoint (client_init ep) @ replicate n CHR ''/''"
    unfolding e by (rule rstrip_decomp)
  show "c_endpoint (client_init ep) = [] \<or> last (c_endpoint (client_init ep)) \<noteq> CHR ''/''"
    unfolding e by (rule rstrip_no_trailing)
qed

theorem endpoint_resolution_witness:
  "lower ''PUBLIC'' = ''public''
   \<and> c_endpoint (client_init ''PUBLIC'') = ''http://localhost:4000''
   \<and> lower ''Auto'' = ''auto''
   \<and> c_endpoint (client_init ''Auto'') = ''http://localhost:4000''
   \<and> lower ''http://localhost:8888//'' \<noteq> ''public''
   \<and> lower ''http://localhost:8888//'' \<noteq> ''auto''
   \<and> c_endpoint (client_init ''http://localhost:8888//'') = ''http://localhost:8888''
   \<and> last (c_endpoint (client_init ''http://localhost:8888//'')) \<noteq> CHR ''/''"
proof -
  have p: "lower ''PUBLIC'' = ''public''" by code_simp
  have a: "lower ''Auto'' = ''auto''" by code_simp
  have n1: "lower ''http://localhost:8888//'' \<noteq> ''public''" by code_simp
  have n2: "lower ''http://localhost:8888//'' \<noteq> ''auto''" by code_simp
  have v: "c_endpoint (client_init ''http://localhost:8888//'') = ''http://localhost:8888''"
    by code_simp
  from endpoint_resolution [of "''PUBLIC''"] endpoint_resolution [of "''Auto''"]
    endpoint_resolution [of "''http://localhost:8888//''"] p a n1 n2 v
  show ?thesis by simp
qed

text \<open>
  C2 as stated fails: an endpoint that ends in two slashes loses both, so the stored
  endpoint is neither the given text nor the given text without one slash.
\<close>

theorem endpoint_two_slashes_counterexample:
  "lower ''http://localhost:8888//'' \<noteq> ''public''
   \<and> lower ''http://localhost:8888//'' \<noteq> ''auto''
   \<and> c_endpoint (client_init ''http://localhost:8888//'') \<noteq> ''http://localhost:8888//''
   \<and> c_endpoint (client_init ''http://localhost:8888//'') \<noteq> ''http://localhost:8888/''
   \<and> c_endpoint (client_init ''http://localhost:8888//'') = ''http://localhost:8888''"
  by code_simp

section \<open>Failures of the per-language step\<close>

text \<open>
  C3. Whatever exception the external search raises inside the per-language step, one
  of the three declared kinds or any other, the step raises \<open>SearchEngineError\<close> with
  the message \<open>SearXNG search failed: \<close> followed by the text of that exception.
\<close>

theorem single_language_failure_wrapped:
  "fst (be q (client_config engs lang pg) (c_local_instance c) s) = Inl e
     \<Longrightarrow> fst (search_single_language be c q engs lang pg s)
           = Inl (SearchEngineError (''SearXNG search failed: '' @ str_exn e))"
  by (cases "be q (client_config engs lang pg) (c_local_instance c) s")
     (simp add: search_single_language_def)

theorem single_language_failure_wrapped_witness:
  "fst (failing_backend ''q'' (client_config None ''en'' 1) (c_local_instance sample_client) 0)
     = Inl (RateLimitError ''too many requests'')
   \<and> fst (search_single_language failing_backend sample_client ''q'' None ''en'' 1 0)
     = Inl (SearchEngineError ''SearXNG search failed: too many requests'')"
proof -
  have h: "fst (failing_backend ''q'' (client_config None ''en'' 1)
                  (c_local_instance sample_client) 0)
             = Inl (RateLimitError ''too many requests'')"
    by (simp add: failing_backend_def)
  from single_language_failure_wrapped
         [of failing_backend "''q''" None "''en''" 1 sample_client 0
             "RateLimitError ''too many requests''"] h
  show ?thesis by simp
qed

section \<open>The length of the list returned by the compatibility adapter\<close>

text \<open>
  C5 (as amended). When the configured maximum is not negative, a list returned by
  \<open>search\<close> of the compatibility adapter is no longer than the maximum, however many
  results each language contributes, and it is the de-duplication of the accumulated
  collection cut to the maximum.
\<close>

theorem adapter_search_length_bound:
  assumes "0 \<le> max_results a"
    and "fst (adapter_search be a q engs langs pg ss s) = Inr rs"
  shows "int (length rs) \<le> max_results a
         \<and> (\<exists>lvl. SafeSearchLevel_of_int ss = Inr lvl \<and>
              rs = deduplicate_results
                     (take (nat (max_results a))
                        (adapter_accumulated be a q engs langs pg lvl s)))"
proof -
  obtain lvl where lvl: "SafeSearchLevel_of_int ss = Inr lvl"
    using adapter_search_level [OF assms(2)] by blast
  let ?acc = "adapter_accumulated be a q engs langs pg lvl s"
  have "rs = deduplicate_results (py_take (max_results a) ?acc)"
    by (rule adapter_search_Inr [OF assms(2) lvl])
  with assms(1) have rs: "rs = deduplicate_results (take (nat (max_results a)) ?acc)"
    by (simp add: py_take_def)
  have "length rs \<le> length (take (nat (max_results a)) ?acc)"
    unfolding rs by (rule dedup_length)
  also have "\<dots> \<le> nat (max_results a)" by simp
  finally have "int (length rs) \<le> max_results a" using assms(1) by linarith
  with rs lvl show ?thesis by blast
qed

theorem adapter_search_length_bound_witness:
  "0 \<le> max_results (sample_adapter 5)
   \<and> fst (adapter_search sample_backend (sample_adapter 5) ''q'' None sample_langs 1 1 0)
     = Inr (map convert_result
         [sample_result ''http://a.example/en'', sample_result ''http://b.example/'',
          sample_result ''http://c.example/'', sample_result ''http://a.example/de''])
   \<and> int (length (map convert_result
         [sample_result ''http://a.example/en'', sample_result ''http://b.example/'',
          sample_result ''http://c.example/'', sample_result ''http://a.example/de'']))
       \<le> max_results (sample_adapter 5)"
proof -
  have m: "0 \<le> max_results (sample_adapter 5)" by code_simp
  have a: "fst (adapter_search sample_backend (sample_adapter 5) ''q'' None sample_langs 1 1 0)
     = Inr (map convert_result
         [sample_result ''http://a.example/en'', sample_result ''http://b.example/'',
          sample_result ''http://c.example/'', sample_result ''http://a.example/de''])"
    by code_simp
  from adapter_search_length_bound [OF m a] m a show ?thesis by blast
qed

text \<open>
  C5 as stated fails for a negative maximum: with \<open>max_results = -1\<close> the slice
  \<open>results[:-1]\<close> drops only the last of three results, and two are returned.
\<close>

theorem adapter_negative_maximum_counterexample:
  "fst (adapter_search sample_backend (sample_adapter (- 1)) ''q'' None sample_langs 1 1 0)
     = Inr (map convert_result
         [sample_result ''http://a.example/en'', sample_result ''http://b.example/''])
   \<and> \<not> int (length (map convert_result
         [sample_result ''http://a.example/en'', sample_result ''http://b.example/'']))
       \<le> max_results (sample_adapter (- 1))"
  by code_simp

section \<open>When every language fails\<close>

lemma client_loop_all_fail:
  "every_step_fails be c q engs pg ls s \<Longrightarrow> fst (client_loop be c q engs pg ls acc s) = acc"
proof (induction ls arbitrary: s)
  case Nil
  then show ?case by simp
next
  case (Cons l ls)
  then show ?case
    by (cases "search_single_language be c q engs l pg s")
       (auto split: sum.splits)
qed

text \<open>
  C6. When the step of every language of a \<open>search\<close> call of the exact replacement
  fails, the call returns the empty list and does not raise.
\<close>

theorem all_languages_fail_returns_empty:
  "every_step_fails be c q engs pg (client_languages langs) s
     \<Longrightarrow> fst (client_search be c q engs langs pg s) = Inr []"
  by (simp add: client_search_Inr client_accumulated_def client_loop_all_fail
        deduplicate_results_def)

theorem all_languages_fail_returns_empty_witness:
  "every_step_fails failing_backend sample_client ''q'' None 1 (client_languages sample_langs) 0
   \<and> fst (client_search failing_backend sample_client ''q'' None sample_langs 1 0) = Inr []"
proof -
  have h: "every_step_fails failing_backend sample_client ''q'' None 1
             (client_languages sample_langs) 0"
    by code_simp
  from all_languages_fail_returns_empty [OF h] h show ?thesis by simp
qed

section \<open>The language code of the per-language configuration\<close>

lemma client_config_language:
  "language (client_config engs l pg) = (if l = ''auto'' then ''en'' else l)"
  by (simp add: client_config_def)

lemma adapter_config_language:
  "language (adapter_config engs l pg lvl) = (if l = ''auto'' then ''en'' else l)"
  by (simp add: adapter_config_def)

lemma recording_apply:
  "recording be q cfg inst (s, lg)
     = (case be q cfg inst s of (out, s') \<Rightarrow> (out, (s', lg @ [cfg])))"
  by (simp add: recording_def)

lemma client_loop_recorded:
  "map language (snd (snd (client_loop (recording be) c q engs pg ls acc (s, lg))))
     = map language lg @ map (\<lambda>l. if l = ''auto'' then ''en'' else l) ls"
proof (induction ls arbitrary: acc s lg)
  case Nil
  show ?case by simp
next
  case (Cons l ls)
  obtain out s' where o: "be q (client_config engs l pg) (c_local_instance c) s = (out, s')"
    by (cases "be q (client_config engs l pg) (c_local_instance c) s")
  show ?case
    using o Cons.IH
    by (cases out) (simp_all add: search_single_language_def recording_apply client_config_language)
qed

lemma adapter_loop_recorded:
  "\<exists>k. map language (snd (snd (adapter_loop (recording be) a q engs pg lvl ls acc (s, lg))))
     = map language lg @ map (\<lambda>l. if l = ''auto'' then ''en'' else l) (take k ls)"
proof (induction ls arbitrary: acc s lg)
  case Nil
  show ?case by simp
next
  case (Cons l ls)
  let ?tr = "\<lambda>l. if l = ''auto'' then ''en'' else l"
  obtain out s' where o: "be q (adapter_config engs l pg lvl) (local_instance a) s = (out, s')"
    by (cases "be q (adapter_config engs l pg lvl) (local_instance a) s")
  let ?lg = "lg @ [adapter_config engs l pg lvl]"
  show ?case
  proof (cases out)
    case (Inl e)
    obtain k where "map language (snd (snd (adapter_loop (recording be) a q engs pg lvl ls acc (s', ?lg))))
       = map language ?lg @ map ?tr (take k ls)"
      using Cons.IH by blast
    then have "map language (snd (snd (adapter_loop (recording be) a q engs pg lvl (l # ls) acc (s, lg))))
       = map language lg @ map ?tr (take (Suc k) (l # ls))"
      using o Inl by (simp add: recording_apply adapter_config_language)
    then show ?thesis by blast
  next
    case (Inr resp)
    let ?acc = "acc @ map convert_result (results resp)"
    show ?thesis
    proof (cases "max_results a \<le> int (length ?acc)")
      case True
      then have "map language (snd (snd (adapter_loop (recording be) a q engs pg lvl (l # ls) acc (s, lg))))
         = map language lg @ map ?tr (take (Suc 0) (l # ls))"
        using o Inr by (simp add: recording_apply adapter_config_language Let_def)
      then show ?thesis by blast
    next
      case False
      obtain k where "map language (snd (snd (adapter_loop (recording be) a q engs pg lvl ls ?acc (s', ?lg))))
         = map language ?lg @ map ?tr (take k ls)"
        using Cons.IH by blast
      then have "map language (snd (snd (adapter_loop (recording be) a q engs pg lvl (l # ls) acc (s, lg))))
         = map language lg @ map ?tr (take (Suc k) (l # ls))"
        using o Inr False by (simp add: recording_apply adapter_config_language Let_def)
      then show ?thesis by blast
    qed
  qed
qed

text \<open>
  The configurations that the language loop of the compatibility adapter hands to the
  client: one for each language of an initial part of the list, at least one when the
  list is not empty, and all of them unless the collection reached the maximum.
\<close>

lemma adapter_loop_configs:
  "\<exists>k. k \<le> length ls \<and> (ls \<noteq> [] \<longrightarrow> 0 < k) \<and>
       snd (snd (adapter_loop (recording be) a q engs pg lvl ls acc (s, lg)))
         = lg @ map (\<lambda>l. adapter_config engs l pg lvl) (take k ls) \<and>
       (k < length ls \<longrightarrow>
          max_results a
            \<le> int (length (fst (adapter_loop (recording be) a q engs pg lvl ls acc (s, lg)))))"
proof (induction ls arbitrary: acc s lg)
  case Nil
  show ?case by simp
next
  case (Cons l ls)
  let ?cfg = "adapter_config engs l pg lvl"
  let ?lg = "lg @ [?cfg]"
  let ?loop = "adapter_loop (recording be) a q engs pg lvl"
  obtain out s' where o: "be q ?cfg (local_instance a) s = (out, s')"
    by (cases "be q ?cfg (local_instance a) s")
  have continued:
    "\<exists>k. k \<le> length (l # ls) \<and> (l # ls \<noteq> [] \<longrightarrow> 0 < k) \<and>
       snd (snd (?loop (l # ls) acc (s, lg)))
         = lg @ map (\<lambda>l. adapter_config engs l pg lvl) (take k (l # ls)) \<and>
       (k < length (l # ls) \<longrightarrow> max_results a \<le> int (length (fst (?loop (l # ls) acc (s, lg)))))"
    if eq: "?loop (l # ls) acc (s, lg) = ?loop ls acc' (s', ?lg)" for acc'
  proof -
    obtain k where k: "k \<le> length ls"
      and r: "snd (snd (?loop ls acc' (s', ?lg)))
                = ?lg @ map (\<lambda>l. adapter_config engs l pg lvl) (take k ls)"
      and m: "k < length ls \<longrightarrow> max_results a \<le> int (length (fst (?loop ls acc' (s', ?lg))))"
      using Cons.IH [of acc' s' ?lg] by blast
    show ?thesis
    proof (intro exI [of _ "Suc k"] conjI impI)
      show "Suc k \<le> length (l # ls)" using k by simp
      show "0 < Suc k" by simp
      show "snd (snd (?loop (l # ls) acc (s, lg)))
              = lg @ map (\<lambda>l. adapter_config engs l pg lvl) (take (Suc k) (l # ls))"
        unfolding eq r by simp
      assume "Suc k < length (l # ls)"
      then show "max_results a \<le> int (length (fst (?loop (l # ls) acc (s, lg))))"
        unfolding eq using m by simp
    qed
  qed
  show ?case
  proof (cases out)
    case (Inl e)
    have "?loop (l # ls) acc (s, lg) = ?loop ls acc (s', ?lg)"
      using o Inl by (simp add: recording_apply)
    then show ?thesis by (rule continued)
  next
    case (Inr resp)
    let ?acc = "acc @ map convert_result (results resp)"
    show ?thesis
    proof (cases "max_results a \<le> int (length ?acc)")
      case False
      have "?loop (l # ls) acc (s, lg) = ?loop ls ?acc (s', ?lg)"
        using o Inr False by (simp add: recording_apply Let_def)
      then show ?thesis by (rule continued)
    next
      case True
      have eq: "?loop (l # ls) acc (s, lg) = (?acc, (s', ?lg))"
        using o Inr True by (simp add: recording_apply Let_def)
      show ?thesis
      proof (intro exI [of _ "Suc 0"] conjI impI)
        show "Suc 0 \<le> length (l # ls)" by simp
        show "0 < Suc 0" by simp
        show "snd (snd (?loop (l # ls) acc (s, lg)))
                = lg @ map (\<lambda>l. adapter_config engs l pg lvl) (take (Suc 0) (l # ls))"
          unfolding eq by simp
        show "max_results a \<le> int (length (fst (?loop (l # ls) acc (s, lg))))"
          unfolding eq using True by simp
      qed
    qed
  qed
qed

lemma adapter_search_configs:
  assumes "SafeSearchLevel_of_int ss = Inr lvl"
  shows "\<exists>k. k \<le> length (or_default langs (search_languages a))
       \<and> (or_default langs (search_languages a) \<noteq> [] \<longrightarrow> 0 < k)
       \<and> snd (snd (adapter_search (recording be) a q es langs pg ss (s, [])))
           = map (\<lambda>l. adapter_config (or_default es (active_engines a)) l pg lvl)
               (take k (or_default langs (search_languages a)))
       \<and> (k < length (or_default langs (search_languages a)) \<longrightarrow>
            max_results a
              \<le> int (length (adapter_accumulated (recording be) a q es langs pg lvl (s, []))))"
  using adapter_loop_configs
          [of "or_default langs (search_languages a)" be a q
              "or_default es (active_engines a)" pg lvl "[]" s "[]"] assms
  by (simp add: adapter_search_def adapter_accumulated_def Let_def case_prod_beta)

text \<open>The per-language step of the exact replacement calls the client once.\<close>

lemma step_config:
  "snd (snd (search_single_language (recording be) c q engs lang pg (s, lg)))
     = lg @ [client_config engs lang pg]"
  by (cases "be q (client_config engs lang pg) (c_local_instance c) s")
     (simp add: search_single_language_def recording_apply split: sum.splits)

lemma step_returns:
  "be q (client_config engs lang pg) (c_local_instance c) s = (Inr resp, s')
     \<Longrightarrow> search_single_language be c q engs lang pg s
           = (Inr (map convert_resultX (results resp)), s')"
  by (simp add: search_single_language_def)

text \<open>
  C7. In both adapters the configuration built for the language token \<open>auto\<close> has the
  language code \<open>en\<close>, and the configuration built for any other token has that token
  as its language code. The configurations that the client receives in a \<open>search\<close> call
  carry these codes in the order of the language list. The exact replacement hands over
  one for every language. The compatibility adapter, once the safe-search level is
  accepted, hands over one for each language of an initial part of the list, which is
  not empty when the list is not empty and is the whole list unless the collection
  reached the maximum; so the first language always gets its code.
\<close>

theorem auto_language_becomes_en:
  "language (adapter_config engs ''auto'' pg lvl) = ''en''
   \<and> language (client_config engs' ''auto'' pg) = ''en''
   \<and> (lang \<noteq> ''auto'' \<longrightarrow>
        language (adapter_config engs lang pg lvl) = lang
        \<and> language (client_config engs' lang pg) = lang)
   \<and> map language (snd (snd (client_search (recording be) c q engs' langs pg (s, []))))
       = map (\<lambda>l. if l = ''auto'' then ''en'' else l) (client_languages langs)
   \<and> prefix (map language (snd (snd (adapter_search (recording be) a q es langs pg ss (s, [])))))
        (map (\<lambda>l. if l = ''auto'' then ''en'' else l) (or_default langs (search_languages a)))
   \<and> (SafeSearchLevel_of_int ss = Inr lv \<longrightarrow>
        (\<exists>k. k \<le> length (or_default langs (search_languages a))
           \<and> (or_default langs (search_languages a) \<noteq> [] \<longrightarrow> 0 < k)
           \<and> map language (snd (snd (adapter_search (recording be) a q es langs pg ss (s, []))))
               = map (\<lambda>l. if l = ''auto'' then ''en'' else l)
                   (take k (or_default langs (search_languages a)))
           \<and> (k < length (or_default langs (search_languages a)) \<longrightarrow>
                max_results a
                  \<le> int (length (adapter_accumulated (recording be) a q es langs pg lv
                                    (s, []))))))
   \<and> (SafeSearchLevel_of_int ss = Inr lv \<and> or_default langs (search_languages a) = l0 # rest
        \<longrightarrow> snd (snd (adapter_search (recording be) a q es langs pg ss (s, []))) \<noteq> []
          \<and> language (hd (snd (snd (adapter_search (recording be) a q es langs pg ss (s, [])))))
              = (if l0 = ''auto'' then ''en'' else l0))"
proof -
  let ?tr = "\<lambda>l. if l = ''auto'' then ''en'' else l"
  let ?ls = "or_default langs (search_languages a)"
  let ?rec = "snd (snd (adapter_search (recording be) a q es langs pg ss (s, [])))"
  have builders: "language (adapter_config engs ''auto'' pg lvl) = ''en''
     \<and> language (client_config engs' ''auto'' pg) = ''en''
     \<and> (lang \<noteq> ''auto'' \<longrightarrow>
          language (adapter_config engs lang pg lvl) = lang
          \<and> language (client_config engs' lang pg) = lang)"
    by (simp add: adapter_config_language client_config_language)
  have replacement:
    "map language (snd (snd (client_search (recording be) c q engs' langs pg (s, []))))
       = map ?tr (client_languages langs)"
    using client_loop_recorded [of be c q engs' pg "client_languages langs" "[]" s "[]"]
    by (simp add: client_search_def case_prod_beta)
  have initial: "prefix (map language ?rec) (map ?tr ?ls)"
  proof (cases "SafeSearchLevel_of_int ss")
    case (Inl e)
    then show ?thesis by (simp add: adapter_search_def)
  next
    case (Inr l)
    obtain k where "map language (snd (snd (adapter_loop (recording be) a q
          (or_default es (active_engines a)) pg l ?ls [] (s, []))))
       = map ?tr (take k ?ls)"
      using adapter_loop_recorded
        [of be a q "or_default es (active_engines a)" pg l ?ls "[]" s "[]"] by auto
    then have "map language ?rec = take k (map ?tr ?ls)"
      using Inr by (simp add: adapter_search_def Let_def take_map case_prod_beta)
    then show ?thesis by (simp add: take_is_prefix)
  qed
  have received: "\<exists>k. k \<le> length ?ls \<and> (?ls \<noteq> [] \<longrightarrow> 0 < k)
           \<and> map language ?rec = map ?tr (take k ?ls)
           \<and> (k < length ?ls \<longrightarrow>
                max_results a
                  \<le> int (length (adapter_accumulated (recording be) a q es langs pg lv
                                    (s, []))))"
    if lv: "SafeSearchLevel_of_int ss = Inr lv"
  proof -
    obtain k where k: "k \<le> length ?ls" "?ls \<noteq> [] \<longrightarrow> 0 < k"
      and r: "?rec = map (\<lambda>l. adapter_config (or_default es (active_engines a)) l pg lv)
                       (take k ?ls)"
      and m: "k < length ?ls \<longrightarrow>
                max_results a
                  \<le> int (length (adapter_accumulated (recording be) a q es langs pg lv
                                    (s, [])))"
      using adapter_search_configs [OF lv, of langs a be q es pg s] by blast
    have "map language ?rec = map ?tr (take k ?ls)"
      unfolding r by (simp add: adapter_config_language comp_def)
    with k m show ?thesis by blast
  qed
  have first: "?rec \<noteq> [] \<and> language (hd ?rec) = ?tr l0"
    if h: "SafeSearchLevel_of_int ss = Inr lv \<and> ?ls = l0 # rest"
  proof -
    from h have lv: "SafeSearchLevel_of_int ss = Inr lv" and ls: "?ls = l0 # rest" by simp_all
    obtain k where k: "?ls \<noteq> [] \<longrightarrow> 0 < k"
      and r: "?rec = map (\<lambda>l. adapter_config (or_default es (active_engines a)) l pg lv)
                       (take k ?ls)"
      using adapter_search_configs [OF lv, of langs a be q es pg s] by blast
    from k ls obtain j where j: "k = Suc j" by (cases k) auto
    show ?thesis unfolding r ls j by (simp add: adapter_config_language)
  qed
  from builders replacement initial received first show ?thesis by blast
qed

theorem auto_language_becomes_en_witness:
  "''ru'' \<noteq> ''auto''
   \<and> language (adapter_config [''google''] ''ru'' 1 MODERATE) = ''ru''
   \<and> language (client_config None ''ru'' 1) = ''ru''
   \<and> language (adapter_config [''google''] ''auto'' 1 MODERATE) = ''en''
   \<and> map language (snd (snd (client_search (recording sample_backend) sample_client ''q''
          None (Some [''auto'', ''ru'', ''de'']) 1 (0, []))))
       = [''en'', ''ru'', ''de'']
   \<and> SafeSearchLevel_of_int 1 = Inr MODERATE
   \<and> or_default None (search_languages (sample_adapter 5))
       = ''auto'' # [''ru'', ''en'', ''de'', ''fr'']
   \<and> language (hd (snd (snd (adapter_search (recording sample_backend) (sample_adapter 5)
          ''q'' None None 1 1 (0, []))))) = ''en''
   \<and> map language (snd (snd (adapter_search (recording sample_backend) (sample_adapter 5)
          ''q'' None None 1 1 (0, []))))
       = [''en'', ''ru'', ''en'']"
proof -
  have n: "''ru'' \<noteq> ''auto''" by simp
  have l: "client_languages (Some [''auto'', ''ru'', ''de'']) = [''auto'', ''ru'', ''de'']"
    by (simp add: client_languages_def or_default_def)
  have lv: "SafeSearchLevel_of_int 1 = Inr MODERATE"
    by (simp add: SafeSearchLevel_of_int_def)
  have ls: "or_default None (search_languages (sample_adapter 5))
       = ''auto'' # [''ru'', ''en'', ''de'', ''fr'']"
    by (simp add: or_default_def sample_adapter_def adapter_init_def)
  have run: "map language (snd (snd (adapter_search (recording sample_backend) (sample_adapter 5)
          ''q'' None None 1 1 (0, []))))
       = [''en'', ''ru'', ''en'']"
    by code_simp
  note t = auto_language_becomes_en
         [where engs = "[''google'']" and pg = 1 and lvl = MODERATE and engs' = None
            and lang = "''ru''" and be = sample_backend and c = sample_client and q = "''q''"
            and langs = "Some [''auto'', ''ru'', ''de'']" and s = 0 and a = "sample_adapter 5"
            and es = None and ss = 1]
  note u = auto_language_becomes_en
         [where engs = "[''google'']" and pg = 1 and lvl = MODERATE and engs' = None
            and lang = "''ru''" and be = sample_backend and c = sample_client and q = "''q''"
            and langs = None and s = 0 and a = "sample_adapter 5"
            and es = None and ss = 1 and lv = MODERATE and ?l0.0 = "''auto''"
            and rest = "[''ru'', ''en'', ''de'', ''fr'']"]
  from t n l have g1: "language (adapter_config [''google''] ''ru'' 1 MODERATE) = ''ru''
     \<and> language (client_config None ''ru'' 1) = ''ru''
     \<and> language (adapter_config [''google''] ''auto'' 1 MODERATE) = ''en''
     \<and> map language (snd (snd (client_search (recording sample_backend) sample_client ''q''
          None (Some [''auto'', ''ru'', ''de'']) 1 (0, []))))
       = [''en'', ''ru'', ''de'']"
    by simp
  from u lv ls have g2: "language (hd (snd (snd (adapter_search (recording sample_backend)
          (sample_adapter 5) ''q'' None None 1 1 (0, []))))) = ''en''"
    by simp
  from n g1 lv ls g2 run show ?thesis by simp
qed

section \<open>The engine filter of the exact replacement\<close>

lemma strip_empty [simp]: "strip [] = []"
  by (simp add: strip_def)

text \<open>What \<open>strip\<close> returns neither begins nor ends with white space.\<close>

lemma strip_trimmed:
  "strip e = [] \<or> (\<not> is_space (hd (strip e)) \<and> \<not> is_space (last (strip e)))"
proof (cases "strip e = []")
  case True
  then show ?thesis by simp
next
  case False
  let ?m = "dropWhile is_space (rev e)"
  have s: "strip e = dropWhile is_space (rev ?m)" by (simp add: strip_def)
  have m: "?m \<noteq> []"
  proof
    assume a: "?m = []"
    have "dropWhile is_space (rev ?m) = []" unfolding a by simp
    with s False show False by simp
  qed
  have front: "\<not> is_space (hd (strip e))"
    using False unfolding s by (rule hd_dropWhile)
  have "\<not> is_space (hd ?m)" using m by (rule hd_dropWhile)
  then have lm: "\<not> is_space (last (rev ?m))" using m by (simp add: last_rev)
  obtain zs where zs: "rev ?m = zs @ strip e"
    unfolding s by (metis takeWhile_dropWhile_id)
  from zs False have "last (rev ?m) = last (strip e)" by simp
  with lm front show ?thesis by simp
qed

text \<open>The condition and the expression of the list comprehension, taken together.\<close>

lemma valid_engines_eq:
  "map strip (filter (\<lambda>e. e \<noteq> [] \<and> strip e \<noteq> []) es) = filter (\<lambda>e. e \<noteq> []) (map strip es)"
proof -
  have "(\<lambda>e. e \<noteq> [] \<and> strip e \<noteq> []) = (\<lambda>e. strip e \<noteq> [])" by auto
  then show ?thesis by (simp add: filter_map comp_def)
qed

lemma prepare_engines_eq:
  "prepare_engines engs =
     (let valid = filter (\<lambda>e. e \<noteq> []) (map strip (case engs of None \<Rightarrow> [] | Some es \<Rightarrow> es))
      in if valid = [] then None else Some valid)"
proof (cases engs)
  case None
  then show ?thesis by (simp add: prepare_engines_def)
next
  case (Some es)
  then show ?thesis
    by (cases "es = []") (simp_all add: prepare_engines_def valid_engines_eq Let_def)
qed

lemma blank_unset:
  "engs = None \<or> (\<exists>es. engs = Some es \<and> (\<forall>e \<in> set es. strip e = []))
     \<Longrightarrow> client_config engs lang pg = client_config None lang pg
         \<and> engines (client_config engs lang pg) = None"
proof -
  assume "engs = None \<or> (\<exists>es. engs = Some es \<and> (\<forall>e \<in> set es. strip e = []))"
  then have "filter (\<lambda>e. e \<noteq> []) (map strip (case engs of None \<Rightarrow> [] | Some es \<Rightarrow> es)) = []"
    by (auto simp: filter_empty_conv)
  then have p: "prepare_engines engs = None" by (simp add: prepare_engines_eq)
  have "prepare_engines None = None" by (simp add: prepare_engines_def)
  with p show ?thesis by (simp add: client_config_def)
qed

text \<open>
  C8. The engine filter of the configuration built in the per-language step is the list
  of the supplied entries with white space trimmed and blank entries dropped, when that
  list is not empty, and is unset otherwise. An entry of the filter is not empty and
  neither begins nor ends with white space. The step calls the client once, with
  exactly this configuration. When no engines were supplied or every supplied entry is
  blank, the configuration the client receives has no engine filter, and the step
  returns the converted results whenever the unrestricted search returns.
\<close>

theorem engine_filter_unrestricted:
  "engines (client_config engs lang pg) =
     (let valid = filter (\<lambda>e. e \<noteq> []) (map strip (case engs of None \<Rightarrow> [] | Some es \<Rightarrow> es))
      in if valid = [] then None else Some valid)
   \<and> (engines (client_config engs lang pg) = Some v \<longrightarrow>
        v \<noteq> [] \<and> (\<forall>e \<in> set v. e \<noteq> [] \<and> \<not> is_space (hd e) \<and> \<not> is_space (last e)))
   \<and> (engs = None \<or> (\<exists>es. engs = Some es \<and> (\<forall>e \<in> set es. strip e = [])) \<longrightarrow>
        engines (client_config engs lang pg) = None
        \<and> search_single_language be c q engs lang pg s
            = search_single_language be c q None lang pg s)
   \<and> snd (snd (search_single_language (recording be) c q engs lang pg (s, lg)))
       = lg @ [client_config engs lang pg]
   \<and> (engs = None \<or> (\<exists>es. engs = Some es \<and> (\<forall>e \<in> set es. strip e = [])) \<longrightarrow>
        map engines (snd (snd (search_single_language (recording be) c q engs lang pg (s, []))))
          = [None]
        \<and> (\<forall>resp s'. be q (client_config None lang pg) (c_local_instance c) s = (Inr resp, s')
              \<longrightarrow> search_single_language be c q engs lang pg s
                    = (Inr (map convert_resultX (results resp)), s')))"
proof -
  let ?valid = "filter (\<lambda>e. e \<noteq> []) (map strip (case engs of None \<Rightarrow> [] | Some es \<Rightarrow> es))"
  let ?blank = "engs = None \<or> (\<exists>es. engs = Some es \<and> (\<forall>e \<in> set es. strip e = []))"
  have eq: "engines (client_config engs lang pg) =
     (let valid = ?valid in if valid = [] then None else Some valid)"
    by (simp add: client_config_def prepare_engines_eq)
  have trimmed: "v \<noteq> [] \<and> (\<forall>e \<in> set v. e \<noteq> [] \<and> \<not> is_space (hd e) \<and> \<not> is_space (last e))"
    if "engines (client_config engs lang pg) = Some v"
  proof -
    from that eq have v: "?valid \<noteq> []" "v = ?valid" by (auto simp: Let_def split: if_splits)
    then have ne: "v \<noteq> []" by simp
    have all: "\<forall>e \<in> set v. e \<noteq> [] \<and> \<not> is_space (hd e) \<and> \<not> is_space (last e)"
    proof
      fix e assume "e \<in> set v"
      with v obtain x where "e = strip x" "e \<noteq> []" by auto
      with strip_trimmed [of x] show "e \<noteq> [] \<and> \<not> is_space (hd e) \<and> \<not> is_space (last e)"
        by simp
    qed
    from ne all show ?thesis by (rule conjI)
  qed
  have unset: "engines (client_config engs lang pg) = None
        \<and> search_single_language be c q engs lang pg s
            = search_single_language be c q None lang pg s" if ?blank
  proof
    from blank_unset [OF that, of lang pg]
    have ce: "client_config engs lang pg = client_config None lang pg"
      and en: "engines (client_config engs lang pg) = None" by blast+
    show "engines (client_config engs lang pg) = None" by (rule en)
    show "search_single_language be c q engs lang pg s
            = search_single_language be c q None lang pg s"
      by (simp only: search_single_language_def ce)
  qed
  have passed: "snd (snd (search_single_language (recording be) c q engs lang pg (s, lg)))
       = lg @ [client_config engs lang pg]"
    by (rule step_config)
  have unrestricted:
    "map engines (snd (snd (search_single_language (recording be) c q engs lang pg (s, []))))
          = [None]
        \<and> (\<forall>resp s'. be q (client_config None lang pg) (c_local_instance c) s = (Inr resp, s')
              \<longrightarrow> search_single_language be c q engs lang pg s
                    = (Inr (map convert_resultX (results resp)), s'))" if ?blank
  proof (intro conjI allI impI)
    from blank_unset [OF that, of lang pg]
    have ce: "client_config engs lang pg = client_config None lang pg"
      and en: "engines (client_config engs lang pg) = None" by blast+
    show "map engines (snd (snd (search_single_language (recording be) c q engs lang pg (s, []))))
          = [None]"
      by (simp add: step_config en)
    fix resp s'
    assume "be q (client_config None lang pg) (c_local_instance c) s = (Inr resp, s')"
    then have "be q (client_config engs lang pg) (c_local_instance c) s = (Inr resp, s')"
      by (simp only: ce)
    then show "search_single_language be c q engs lang pg s
                    = (Inr (map convert_resultX (results resp)), s')"
      by (rule step_returns)
  qed
  show ?thesis
  proof (intro conjI)
    show "engines (client_config engs lang pg) =
       (let valid = ?valid in if valid = [] then None else Some valid)"
      by (rule eq)
    show "engines (client_config engs lang pg) = Some v \<longrightarrow>
        v \<noteq> [] \<and> (\<forall>e \<in> set v. e \<noteq> [] \<and> \<not> is_space (hd e) \<and> \<not> is_space (last e))"
      using trimmed by (rule impI)
    show "?blank \<longrightarrow>
        engines (client_config engs lang pg) = None
        \<and> search_single_language be c q engs lang pg s
            = search_single_language be c q None lang pg s"
      using unset by (rule impI)
    show "snd (snd (search_single_language (recording be) c q engs lang pg (s, lg)))
       = lg @ [client_config engs lang pg]"
      by (rule passed)
    show "?blank \<longrightarrow>
        map engines (snd (snd (search_single_language (recording be) c q engs lang pg (s, []))))
          = [None]
        \<and> (\<forall>resp s'. be q (client_config None lang pg) (c_local_instance c) s = (Inr resp, s')
              \<longrightarrow> search_single_language be c q engs lang pg s
                    = (Inr (map convert_resultX (results resp)), s'))"
      using unrestricted by (rule impI)
  qed
qed

theorem engine_filter_unrestricted_witness:
  "engines (client_config blank_engines ''en'' 1) = None
   \<and> search_single_language sample_backend sample_client ''q'' blank_engines ''en'' 1 0
       = search_single_language sample_backend sample_client ''q'' None ''en'' 1 0
   \<and> engines (client_config padded_engines ''en'' 1) = Some [''google'', ''bing'']
   \<and> [''google'', ''bing''] \<noteq> []
   \<and> snd (snd (search_single_language (recording sample_backend) sample_client ''q''
                  padded_engines ''en'' 1 (0, [])))
       = [client_config padded_engines ''en'' 1]
   \<and> map engines (snd (snd (search_single_language (recording sample_backend) sample_client
                               ''q'' blank_engines ''en'' 1 (0, []))))
       = [None]
   \<and> sample_backend ''q'' (client_config None ''en'' 1) (c_local_instance sample_client) 0
       = (Inr \<lparr>results = [sample_result ''http://a.example/en'',
                            sample_result ''http://b.example/'',
                            sample_result ''http://c.example/''],
                 instance_url = ''http://localhost:4000''\<rparr>, 1)
   \<and> search_single_language sample_backend sample_client ''q'' blank_engines ''en'' 1 0
       = (Inr (map convert_resultX
                 [sample_result ''http://a.example/en'', sample_result ''http://b.example/'',
                  sample_result ''http://c.example/'']), 1)"
proof -
  have b: "\<forall>e \<in> set [''  '', [], [CHR 0x09, CHR 0x20]]. strip e = []" by code_simp
  then have h: "blank_engines = None
      \<or> (\<exists>es. blank_engines = Some es \<and> (\<forall>e \<in> set es. strip e = []))"
    by (simp add: blank_engines_def)
  have p: "filter (\<lambda>e. e \<noteq> [])
             (map strip (case padded_engines of None \<Rightarrow> [] | Some es \<Rightarrow> es))
           = [''google'', ''bing'']"
    by code_simp
  have r: "sample_backend ''q'' (client_config None ''en'' 1) (c_local_instance sample_client) 0
       = (Inr \<lparr>results = [sample_result ''http://a.example/en'',
                            sample_result ''http://b.example/'',
                            sample_result ''http://c.example/''],
                 instance_url = ''http://localhost:4000''\<rparr>, 1)"
    by code_simp
  note t = engine_filter_unrestricted
         [where engs = blank_engines and lang = "''en''" and pg = 1 and v = "[]"
            and be = sample_backend and c = sample_client and q = "''q''" and s = 0
            and lg = "[]"]
  note u = engine_filter_unrestricted
         [where engs = padded_engines and lang = "''en''" and pg = 1
            and v = "[''google'', ''bing'']"
            and be = sample_backend and c = sample_client and q = "''q''" and s = 0
            and lg = "[]"]
  from t h have g1: "engines (client_config blank_engines ''en'' 1) = None
     \<and> search_single_language sample_backend sample_client ''q'' blank_engines ''en'' 1 0
         = search_single_language sample_backend sample_client ''q'' None ''en'' 1 0"
    by blast
  from u have "engines (client_config padded_engines ''en'' 1) =
     (let valid = filter (\<lambda>e. e \<noteq> [])
                    (map strip (case padded_engines of None \<Rightarrow> [] | Some es \<Rightarrow> es))
      in if valid = [] then None else Some valid)"
    by blast
  then have g2: "engines (client_config padded_engines ''en'' 1) = Some [''google'', ''bing'']"
    unfolding p by simp
  from u have g3: "snd (snd (search_single_language (recording sample_backend) sample_client
                  ''q'' padded_engines ''en'' 1 (0, [])))
       = [] @ [client_config padded_engines ''en'' 1]"
    by blast
  from t h have g4: "map engines (snd (snd (search_single_language (recording sample_backend)
                  sample_client ''q'' blank_engines ''en'' 1 (0, []))))
       = [None]"
    by blast
  from t h have "\<forall>resp s'.
       sample_backend ''q'' (client_config None ''en'' 1) (c_local_instance sample_client) 0
         = (Inr resp, s')
       \<longrightarrow> search_single_language sample_backend sample_client ''q'' blank_engines ''en'' 1 0
             = (Inr (map convert_resultX (results resp)), s')"
    by blast
  with r have g5: "search_single_language sample_backend sample_client ''q'' blank_engines
                     ''en'' 1 0
       = (Inr (map convert_resultX
                 (results \<lparr>results = [sample_result ''http://a.example/en'',
                            sample_result ''http://b.example/'',
                            sample_result ''http://c.example/''],
                 instance_url = ''http://localhost:4000''\<rparr>)), 1)"
    by blast
  from g1 g2 g3 g4 g5 r show ?thesis by simp
qed

section \<open>Empty arguments of the compatibility adapter\<close>

text \<open>
  C10. In \<open>search\<close> of the compatibility adapter an empty list for the engines, or for
  the languages, gives the same outcome as leaving the argument out. With an empty
  engine list every configuration the client receives carries the engine list set at
  construction, and with an empty language list the configurations are built for the
  languages set at construction, at least for the first of them. After \<open>__init__\<close> these
  lists are not empty, so they are not the argument.
\<close>

theorem empty_argument_uses_default:
  "adapter_search be a q (Some []) langs pg ss s = adapter_search be a q None langs pg ss s
   \<and> adapter_search be a q engs (Some []) pg ss s = adapter_search be a q engs None pg ss s
   \<and> or_default (Some []) (active_engines a) = active_engines a
   \<and> or_default (Some []) (search_languages a) = search_languages a
   \<and> or_default (Some []) (active_engines (adapter_init ep e0 l0 m)) \<noteq> []
   \<and> or_default (Some []) (search_languages (adapter_init ep e0 l0 m)) \<noteq> []
   \<and> (SafeSearchLevel_of_int ss = Inr lv \<longrightarrow>
        (\<exists>k. k \<le> length (or_default langs (search_languages a))
           \<and> (or_default langs (search_languages a) \<noteq> [] \<longrightarrow> 0 < k)
           \<and> snd (snd (adapter_search (recording be) a q (Some []) langs pg ss (s, [])))
               = map (\<lambda>l. adapter_config (active_engines a) l pg lv)
                   (take k (or_default langs (search_languages a)))))
   \<and> (SafeSearchLevel_of_int ss = Inr lv \<longrightarrow>
        (\<exists>k. k \<le> length (search_languages a)
           \<and> (search_languages a \<noteq> [] \<longrightarrow> 0 < k)
           \<and> snd (snd (adapter_search (recording be) a q engs (Some []) pg ss (s, [])))
               = map (\<lambda>l. adapter_config (or_default engs (active_engines a)) l pg lv)
                   (take k (search_languages a))))
   \<and> (SafeSearchLevel_of_int ss = Inr lv \<longrightarrow>
        (\<forall>cfg \<in> set (snd (snd (adapter_search (recording be) a q (Some []) langs pg ss
                                   (s, [])))).
           engines cfg = Some (active_engines a)))"
proof -
  have e1: "adapter_search be a q (Some []) langs pg ss s
              = adapter_search be a q None langs pg ss s"
    by (simp add: adapter_search_def or_default_def)
  have e2: "adapter_search be a q engs (Some []) pg ss s
              = adapter_search be a q engs None pg ss s"
    by (simp add: adapter_search_def or_default_def)
  have d1: "or_default (Some []) (active_engines a) = active_engines a"
    by (simp add: or_default_def)
  have d2: "or_default (Some []) (search_languages a) = search_languages a"
    by (simp add: or_default_def)
  have n1: "or_default (Some []) (active_engines (adapter_init ep e0 l0 m)) \<noteq> []"
    by (simp add: or_default_def adapter_init_def split: option.splits)
  have n2: "or_default (Some []) (search_languages (adapter_init ep e0 l0 m)) \<noteq> []"
    by (simp add: or_default_def adapter_init_def split: option.splits)
  have c1: "SafeSearchLevel_of_int ss = Inr lv \<longrightarrow>
        (\<exists>k. k \<le> length (or_default langs (search_languages a))
           \<and> (or_default langs (search_languages a) \<noteq> [] \<longrightarrow> 0 < k)
           \<and> snd (snd (adapter_search (recording be) a q (Some []) langs pg ss (s, [])))
               = map (\<lambda>l. adapter_config (active_engines a) l pg lv)
                   (take k (or_default langs (search_languages a))))"
  proof
    assume lv: "SafeSearchLevel_of_int ss = Inr lv"
    from adapter_search_configs [OF lv, of langs a be q "Some []" pg s]
    show "\<exists>k. k \<le> length (or_default langs (search_languages a))
           \<and> (or_default langs (search_languages a) \<noteq> [] \<longrightarrow> 0 < k)
           \<and> snd (snd (adapter_search (recording be) a q (Some []) langs pg ss (s, [])))
               = map (\<lambda>l. adapter_config (active_engines a) l pg lv)
                   (take k (or_default langs (search_languages a)))"
      unfolding d1 by blast
  qed
  have c2: "SafeSearchLevel_of_int ss = Inr lv \<longrightarrow>
        (\<exists>k. k \<le> length (search_languages a)
           \<and> (search_languages a \<noteq> [] \<longrightarrow> 0 < k)
           \<and> snd (snd (adapter_search (recording be) a q engs (Some []) pg ss (s, [])))
               = map (\<lambda>l. adapter_config (or_default engs (active_engines a)) l pg lv)
                   (take k (search_languages a)))"
  proof
    assume lv: "SafeSearchLevel_of_int ss = Inr lv"
    from adapter_search_configs [OF lv, of "Some []" a be q engs pg s]
    show "\<exists>k. k \<le> length (search_languages a)
           \<and> (search_languages a \<noteq> [] \<longrightarrow> 0 < k)
           \<and> snd (snd (adapter_search (recording be) a q engs (Some []) pg ss (s, [])))
               = map (\<lambda>l. adapter_config (or_default engs (active_engines a)) l pg lv)
                   (take k (search_languages a))"
      unfolding d2 by blast
  qed
  have c3: "SafeSearchLevel_of_int ss = Inr lv \<longrightarrow>
        (\<forall>cfg \<in> set (snd (snd (adapter_search (recording be) a q (Some []) langs pg ss
                                   (s, [])))).
           engines cfg = Some (active_engines a))"
  proof
    assume "SafeSearchLevel_of_int ss = Inr lv"
    with c1 obtain k where
      r: "snd (snd (adapter_search (recording be) a q (Some []) langs pg ss (s, [])))
               = map (\<lambda>l. adapter_config (active_engines a) l pg lv)
                   (take k (or_default langs (search_languages a)))"
      by blast
    show "\<forall>cfg \<in> set (snd (snd (adapter_search (recording be) a q (Some []) langs pg ss
                                   (s, [])))).
           engines cfg = Some (active_engines a)"
      unfolding r by (auto simp: adapter_config_def)
  qed
  from e1 e2 d1 d2 n1 n2 c1 c2 c3 show ?thesis by (intro conjI)
qed

theorem empty_argument_uses_default_witness:
  "SafeSearchLevel_of_int 1 = Inr MODERATE
   \<and> active_engines (sample_adapter 5) = [''google'', ''bing'', ''wikipedia'']
   \<and> snd (snd (adapter_search (recording sample_backend) (sample_adapter 5) ''q''
                  (Some []) (Some []) 1 1 (0, [])))
       = [adapter_config [''google'', ''bing'', ''wikipedia''] ''auto'' 1 MODERATE,
          adapter_config [''google'', ''bing'', ''wikipedia''] ''ru'' 1 MODERATE,
          adapter_config [''google'', ''bing'', ''wikipedia''] ''en'' 1 MODERATE]
   \<and> engines (adapter_config [''google'', ''bing'', ''wikipedia''] ''auto'' 1 MODERATE)
       = Some (active_engines (sample_adapter 5))"
proof -
  have lv: "SafeSearchLevel_of_int 1 = Inr MODERATE"
    by (simp add: SafeSearchLevel_of_int_def)
  have ae: "active_engines (sample_adapter 5) = [''google'', ''bing'', ''wikipedia'']"
    by (simp add: sample_adapter_def adapter_init_def or_default_def)
  have run: "snd (snd (adapter_search (recording sample_backend) (sample_adapter 5) ''q''
                  (Some []) (Some []) 1 1 (0, [])))
       = [adapter_config [''google'', ''bing'', ''wikipedia''] ''auto'' 1 MODERATE,
          adapter_config [''google'', ''bing'', ''wikipedia''] ''ru'' 1 MODERATE,
          adapter_config [''google'', ''bing'', ''wikipedia''] ''en'' 1 MODERATE]"
    by code_simp
  note t = empty_argument_uses_default
         [where be = sample_backend and a = "sample_adapter 5" and q = "''q''"
            and langs = "Some []" and pg = 1 and ss = 1 and s = 0 and lv = MODERATE]
  from t lv have "\<forall>cfg \<in> set (snd (snd (adapter_search (recording sample_backend)
                     (sample_adapter 5) ''q'' (Some []) (Some []) 1 1 (0, [])))).
           engines cfg = Some (active_engines (sample_adapter 5))"
    by blast
  then have g: "engines (adapter_config [''google'', ''bing'', ''wikipedia''] ''auto'' 1 MODERATE)
       = Some (active_engines (sample_adapter 5))"
    unfolding run by simp
  from lv ae run g show ?thesis by (intro conjI)
qed

section \<open>The snippet lines of the walkthroughs\<close>

text \<open>
  C9 (as amended). For a result with non-empty content, simple_search.py prints the
  first 80 characters followed by \<open>...\<close> when the content is longer than 80, and the
  content unchanged otherwise; basic_usage.py does the same with 100. For a result with
  empty content no snippet line is printed.
\<close>

theorem snippet_printed:
  "(r_content r \<noteq> [] \<and> 80 < length (r_content r) \<longrightarrow>
      show_simple r = [Printed (ResultTitle (r_title r)), Printed (ResultUrl (r_url r)),
                       Printed (ResultSnippet (take 80 (r_content r) @ ''...''))]
      \<and> length (take 80 (r_content r)) = 80)
   \<and> (r_content r \<noteq> [] \<and> length (r_content r) \<le> 80 \<longrightarrow>
      show_simple r = [Printed (ResultTitle (r_title r)), Printed (ResultUrl (r_url r)),
                       Printed (ResultSnippet (r_content r))])
   \<and> (r_content r = [] \<longrightarrow>
      show_simple r = [Printed (ResultTitle (r_title r)), Printed (ResultUrl (r_url r))])
   \<and> (r_content r \<noteq> [] \<and> 100 < length (r_content r) \<longrightarrow>
      take 3 (show_basic r) = [Printed (ResultTitle (r_title r)), Printed (ResultUrl (r_url r)),
                       Printed (ResultSnippet (take 100 (r_content r) @ ''...''))]
      \<and> length (take 100 (r_content r)) = 100)
   \<and> (r_content r \<noteq> [] \<and> length (r_content r) \<le> 100 \<longrightarrow>
      take 3 (show_basic r) = [Printed (ResultTitle (r_title r)), Printed (ResultUrl (r_url r)),
                       Printed (ResultSnippet (r_content r))])
   \<and> (r_content r = [] \<longrightarrow> (\<forall>t. Printed (ResultSnippet t) \<notin> set (show_basic r)))"
proof (intro conjI impI)
  assume "r_content r \<noteq> [] \<and> 80 < length (r_content r)"
  then show "show_simple r = [Printed (ResultTitle (r_title r)), Printed (ResultUrl (r_url r)),
                       Printed (ResultSnippet (take 80 (r_content r) @ ''...''))]"
    by (simp add: show_simple_def print_snippet_def snippet_def)
  from \<open>r_content r \<noteq> [] \<and> 80 < length (r_content r)\<close>
  show "length (take 80 (r_content r)) = 80" by simp
next
  assume "r_content r \<noteq> [] \<and> length (r_content r) \<le> 80"
  then show "show_simple r = [Printed (ResultTitle (r_title r)), Printed (ResultUrl (r_url r)),
                       Printed (ResultSnippet (r_content r))]"
    by (simp add: show_simple_def print_snippet_def snippet_def)
next
  assume "r_content r = []"
  then show "show_simple r = [Printed (ResultTitle (r_title r)), Printed (ResultUrl (r_url r))]"
    by (simp add: show_simple_def print_snippet_def)
next
  assume "r_content r \<noteq> [] \<and> 100 < length (r_content r)"
  then show "take 3 (show_basic r) = [Printed (ResultTitle (r_title r)), Printed (ResultUrl (r_url r)),
                       Printed (ResultSnippet (take 100 (r_content r) @ ''...''))]"
    by (simp add: show_basic_def print_snippet_def snippet_def)
  from \<open>r_content r \<noteq> [] \<and> 100 < length (r_content r)\<close>
  show "length (take 100 (r_content r)) = 100" by simp
next
  assume "r_content r \<noteq> [] \<and> length (r_content r) \<le> 100"
  then show "take 3 (show_basic r) = [Printed (ResultTitle (r_title r)), Printed (ResultUrl (r_url r)),
                       Printed (ResultSnippet (r_content r))]"
    by (simp add: show_basic_def print_snippet_def snippet_def)
next
  assume "r_content r = []"
  then show "\<forall>t. Printed (ResultSnippet t) \<notin> set (show_basic r)"
    by (simp add: show_basic_def print_snippet_def split: option.splits)
qed

theorem snippet_printed_witness:
  "r_content long_result \<noteq> [] \<and> 100 < length (r_content long_result)
   \<and> show_simple long_result
       = [Printed (ResultTitle ''title''), Printed (ResultUrl ''http://a.example/''),
          Printed (ResultSnippet (replicate 80 CHR ''x'' @ ''...''))]
   \<and> take 3 (show_basic long_result)
       = [Printed (ResultTitle ''title''), Printed (ResultUrl ''http://a.example/''),
          Printed (ResultSnippet (replicate 100 CHR ''x'' @ ''...''))]
   \<and> length (r_content (sample_result ''http://a.example/'')) \<le> 80
   \<and> show_simple (sample_result ''http://a.example/'')
       = [Printed (ResultTitle ''title''), Printed (ResultUrl ''http://a.example/''),
          Printed (ResultSnippet ''text'')]
   \<and> r_content empty_result = []
   \<and> show_simple empty_result
       = [Printed (ResultTitle ''title''), Printed (ResultUrl ''http://a.example/'')]"
proof -
  have l: "r_content long_result = replicate 120 CHR ''x''"
       "r_title long_result = ''title''" "r_url long_result = ''http://a.example/''"
    by (simp_all add: long_result_def sample_result_def)
  have m: "r_content (sample_result ''http://a.example/'') = ''text''"
       "r_title (sample_result ''http://a.example/'') = ''title''"
       "r_url (sample_result ''http://a.example/'') = ''http://a.example/''"
    by (simp_all add: sample_result_def)
  have e: "r_content empty_result = []"
       "r_title empty_result = ''title''" "r_url empty_result = ''http://a.example/''"
    by (simp_all add: empty_result_def sample_result_def)
  from snippet_printed [of long_result] snippet_printed [of "sample_result ''http://a.example/''"]
       snippet_printed [of empty_result] l m e
  show ?thesis by (simp add: take_replicate)
qed

text \<open>
  C9 as stated fails for the empty content, which is not longer than the snippet length:
  the snippet line stands under \<open>if result.content:\<close>, so no snippet is printed.
\<close>

theorem snippet_empty_content_counterexample:
  "length (r_content empty_result) \<le> 80
   \<and> Printed (ResultSnippet (r_content empty_result)) \<notin> set (show_simple empty_result)
   \<and> show_simple empty_result
       = [Printed (ResultTitle ''title''), Printed (ResultUrl ''http://a.example/'')]
   \<and> Printed (ResultSnippet (r_content empty_result)) \<notin> set (show_basic empty_result)
   \<and> show_basic empty_result
       = [Printed (ResultTitle ''title''), Printed (ResultUrl ''http://a.example/'')]"
  by (simp add: empty_result_def sample_result_def show_simple_def show_basic_def
        print_snippet_def)

section \<open>A failing general search in basic_usage.py\<close>

lemma seq_stops: "snd (p r) \<noteq> Running \<Longrightarrow> seq p q r = p r"
  by (cases "p r") (auto simp: seq_def split: status.splits)

lemma seq_runs: "p r = (r', Running) \<Longrightarrow> seq p q r = q r'"
  by (simp add: seq_def)

lemma emit_emit: "emit es (emit ds r) = emit (ds @ es) r"
  by (simp add: emit_def)

lemma trace_emit: "trace (emit es r) = trace r @ es"
  by (simp add: emit_def)

text \<open>Steps 1 to 4 call the client for the instance lists only.\<close>

lemma step_instances_calls:
  "Called c \<in> set (trace (fst (step_instances env r)))
     \<Longrightarrow> Called c \<in> set (trace r) \<or> c \<in> {UpdateInstances, GetInstances, GetBestInstances}"
  by (auto simp: step_instances_def trace_emit Let_def
           split: option.splits sum.splits if_splits)

text \<open>A general search that raises ends step 5 with \<open>return\<close>.\<close>

lemma step_search_failure:
  "search_out env = Inl e
     \<Longrightarrow> step_search env r
           = (emit [Called (Search ''Python programming''), Printed (SearchFailed (str_exn e))] r,
              Returned)"
  by (simp add: step_search_def emit_emit)

text \<open>
  In every run in which the general search of step 5 raises, no call of the client
  follows it.
\<close>

lemma search_failure_ends_run:
  assumes "search_out env = Inl e"
  shows "attempted env
           \<subseteq> {UpdateInstances, GetInstances, GetBestInstances, Search ''Python programming''}"
proof
  fix c assume "c \<in> attempted env"
  then have c: "Called c \<in> set (trace (fst (basic_main env)))"
    by (simp add: attempted_def)
  let ?r0 = "\<lparr>trace = [], instances = [], results_var = None\<rparr>"
  let ?rest = "seq (step_images env)
          (seq (step_news env)
            (seq (step_test env)
              (seq (step_stats env)
                (seq (step_export env)
                  (seq (step_suggestions env)
                    (step_close env))))))"
  have main: "basic_main env = seq (step_instances env) (seq (step_search env) ?rest) ?r0"
    by (simp add: basic_main_def)
  obtain r1 st where s1: "step_instances env ?r0 = (r1, st)"
    by (cases "step_instances env ?r0")
  have r1: "Called c \<in> set (trace r1) \<Longrightarrow> c \<in> {UpdateInstances, GetInstances, GetBestInstances}"
    using step_instances_calls [of c env ?r0] s1 by simp
  show "c \<in> {UpdateInstances, GetInstances, GetBestInstances, Search ''Python programming''}"
  proof (cases "st = Running")
    case False
    then have "basic_main env = (r1, st)"
      using s1 seq_stops [of "step_instances env" ?r0] main by simp
    with c r1 show ?thesis by auto
  next
    case True
    with s1 main have "basic_main env = seq (step_search env) ?rest r1"
      by (simp add: seq_runs)
    also have "\<dots> = step_search env r1"
      by (rule seq_stops) (simp add: step_search_failure [OF assms])
    finally have "trace (fst (basic_main env))
        = trace r1 @ [Called (Search ''Python programming''), Printed (SearchFailed (str_exn e))]"
      by (simp add: step_search_failure [OF assms] trace_emit)
    with c r1 show ?thesis by auto
  qed
qed

text \<open>
  The handlers of the image search, the news search and the suggestions have no
  \<open>return\<close>: after a failure there the run goes on.
\<close>

lemma sibling_failures_continue:
  "(image_search_out env = Inl e \<longrightarrow> snd (step_images env r) = Running)
   \<and> (news_search_out env = Inl e \<longrightarrow> snd (step_news env r) = Running)
   \<and> (suggestions_out env = Inl e \<longrightarrow> snd (step_suggestions env r) = Running)"
  by (simp add: step_images_def step_news_def step_suggestions_def)

lemma image_failure_run:
  "trace (fst (basic_main image_fails_env)) =
     [Called UpdateInstances, Called GetInstances, Called GetBestInstances,
      Called (Search ''Python programming''),
      Printed (ResultTitle ''title''), Printed (ResultUrl ''http://a.example/''),
      Printed (ResultSnippet ''text''),
      Called (ImageSearch ''cute cats''), Printed (ImageSearchFailed ''connection refused''),
      Called (NewsSearch ''artificial intelligence''),
      Printed (ResultTitle ''title''), Printed (ResultUrl ''http://a.example/''),
      Called (TestInstance ''https://searx.example.org'' ''test query''),
      Printed (InstanceWorking ''https://searx.example.org'' True),
      Called GetStats, Printed (TotalInstances 1), Printed (WorkingInstances 1),
      Called (ExportResults ''search_results.json'' ''json''),
      Called (ExportResults ''search_results.txt'' ''txt''),
      Printed ResultsExported,
      Called (GetSuggestions ''machine learn''), Printed (Suggestions [''machine learning'']),
      Called Close, Printed Done]"
  by code_simp

text \<open>
  C1. The run of basic_usage.py in which every call returns except the general search
  of step 5, which raises: the failure is reported and \<open>main\<close> returns at once. The image
  search, the news search, the instance probe, the statistics, the suggestions and the
  release of the client are not attempted.
\<close>

theorem basic_main_search_failure_stops:
  "search_out search_fails_env = Inl (NetworkError ''connection refused'')
   \<and> trace (fst (basic_main search_fails_env)) =
       [Called UpdateInstances, Called GetInstances, Called GetBestInstances,
        Called (Search ''Python programming''),
        Printed (SearchFailed ''connection refused'')]
   \<and> snd (basic_main search_fails_env) = Returned
   \<and> ImageSearch ''cute cats'' \<notin> attempted search_fails_env
   \<and> NewsSearch ''artificial intelligence'' \<notin> attempted search_fails_env
   \<and> TestInstance ''https://searx.example.org'' ''test query'' \<notin> attempted search_fails_env
   \<and> GetStats \<notin> attempted search_fails_env
   \<and> GetSuggestions ''machine learn'' \<notin> attempted search_fails_env
   \<and> Close \<notin> attempted search_fails_env"
proof -
  have o: "search_out search_fails_env = Inl (NetworkError ''connection refused'')"
    by (simp add: search_fails_env_def)
  have t: "trace (fst (basic_main search_fails_env)) =
       [Called UpdateInstances, Called GetInstances, Called GetBestInstances,
        Called (Search ''Python programming''),
        Printed (SearchFailed ''connection refused'')]"
    by code_simp
  have s: "snd (basic_main search_fails_env) = Returned"
    by code_simp
  from o t s show ?thesis by (simp add: attempted_def)
qed

end
